theory Spec2Isabelle
  imports Complex_Main "HOL-Library.Multiset"
begin

section \<open>Aggregate detection (calculate\_aggregation.py)\<close>

text \<open>
  Atom indices are Python integers. A neighbor list is the dictionary returned by
  \<open>calculate_neighborlists_from_distances\<close>, kept as an association list in the
  dictionary's iteration order: \<open>{atom_index : [neighbor1_index, neighbor2_index, ...]}\<close>.
  That function lives in the module \<open>aggregation\<close>, which is not among the source
  files; its result for one frame is an argument of the functions below.
\<close>

type_synonym atom = int
type_synonym neighborlists = "(atom \<times> atom list) list"
type_synonym vec = "real \<times> real \<times> real"

subsection \<open>The connectivity graph\<close>

text \<open>
  \<open>nx.Graph()\<close> is an undirected graph stored as a dictionary of adjacency
  dictionaries. Both dictionaries keep insertion order, so the graph is an association
  list from each node to the list of its neighbours, in the order they were added.
\<close>

type_synonym graph = "(atom \<times> atom list) list"

definition add_node :: "graph \<Rightarrow> atom \<Rightarrow> graph" where
  "add_node g u = (if u \<in> fst ` set g then g else g @ [(u, [])])"

definition add_adj :: "graph \<Rightarrow> atom \<Rightarrow> atom \<Rightarrow> graph" where
  "add_adj g u v =
     map (\<lambda>(k, ns). if k = u then (k, if v \<in> set ns then ns else ns @ [v]) else (k, ns)) g"

text \<open>
  \<open>Graph.add_edge(u, v)\<close>: both end points become nodes if they are not yet, then
  \<open>v\<close> is entered among the neighbours of \<open>u\<close> and \<open>u\<close> among those of \<open>v\<close>.
\<close>

definition add_edge :: "graph \<Rightarrow> atom \<Rightarrow> atom \<Rightarrow> graph" where
  "add_edge g u v = add_adj (add_adj (add_node (add_node g u) v) u v) v u"

text \<open>
  \<^verbatim>\<open>
  graph = nx.Graph()
  for atom_index in neighborlists:
      for neighbor in neighborlists[atom_index]:
          graph.add_edge(atom_index, neighbor)
  \<close>
  Only edges are added: an atom with an empty neighbor list never becomes a node.
\<close>

definition add_neighbors :: "graph \<Rightarrow> atom \<times> atom list \<Rightarrow> graph" where
  "add_neighbors g e = foldl (\<lambda>h neighbor. add_edge h (fst e) neighbor) g (snd e)"

definition build_graph :: "neighborlists \<Rightarrow> graph" where
  "build_graph nl = foldl add_neighbors [] nl"

subsection \<open>Depth-first post-order traversal\<close>

datatype error =
    NodeNotInGraph atom   \<comment> \<open>the graph library's lookup of a node that is not in the graph\<close>
  | ValueError atom       \<comment> \<open>\<open>list.remove(x)\<close>: x not in list\<close>
  | TypeError             \<comment> \<open>a number compared with \<open>None\<close>\<close>
  | SelectionError        \<comment> \<open>the trajectory library rejects the selection string\<close>
  | InputError            \<comment> \<open>the trajectory library cannot load the input files\<close>

text \<open>
  \<open>nx.dfs_postorder_nodes(graph, source)\<close> is a generator: it yields the end point of
  every "reverse" edge of the library's iterative depth-first search,
  \<^verbatim>\<open>
  visited = set()
  yield start, start, "forward"
  visited.add(start)
  stack = [(start, iter(G[start]))]
  while stack:
      parent, children = stack[-1]
      try:
          child = next(children)
          if child in visited:
              yield parent, child, "nontree"
          else:
              yield parent, child, "forward"
              visited.add(child)
              stack.append((child, iter(G[child])))
      except StopIteration:
          stack.pop()
          if stack:
              yield stack[-1][0], parent, "reverse"
  yield start, start, "reverse"
  \<close>
  The stack is a list with its top at the head; each entry is a node and the neighbours
  of it that are still to be looked at. \<open>G[n]\<close> fails for a node that is not in the
  graph. The result is the list of nodes yielded so far and the error that ended the
  generator, if any. The library's depth limit defaults to the number of nodes of the
  graph, which a search path never exceeds, and is left out.
\<close>

function dfs_loop ::
  "graph \<Rightarrow> (atom \<times> atom list) list \<Rightarrow> atom set \<Rightarrow> atom list \<Rightarrow> atom list \<times> error option"
where
  "dfs_loop g [] visited out = (out, None)"
| "dfs_loop g ((parent, []) # stack) visited out =
     dfs_loop g stack visited (if stack = [] then out else out @ [parent])"
| "dfs_loop g ((parent, child # children) # stack) visited out =
     (if child \<in> visited then dfs_loop g ((parent, children) # stack) visited out
      else (case map_of g child of
              None \<Rightarrow> (out, Some (NodeNotInGraph child))
            | Some ns \<Rightarrow>
                dfs_loop g ((child, ns) # (parent, children) # stack) (insert child visited) out))"
  by pat_completeness auto

text \<open>
  Termination: a push marks a node that was not visited before, and the nodes that can
  ever be pushed are those the graph or the stack mentions; between two pushes the stack
  only shrinks.
\<close>

definition mentioned :: "(atom \<times> atom list) list \<Rightarrow> atom set" where
  "mentioned g = (\<Union>e \<in> set g. set (snd e))"

definition stack_size :: "(atom \<times> atom list) list \<Rightarrow> nat" where
  "stack_size st = sum_list (map (\<lambda>e. Suc (length (snd e))) st)"

termination dfs_loop
proof (relation "inv_image (less_than <*lex*> less_than)
        (\<lambda>(g, st, vis, out). (card ((mentioned g \<union> mentioned st) - vis), stack_size st))")
  show "wf (inv_image (less_than <*lex*> less_than)
        (\<lambda>(g, st, vis, out). (card ((mentioned g \<union> mentioned st) - vis), stack_size st)))"
    by (intro wf_inv_image wf_lex_prod wf_less_than)
next
  fix g :: graph and parent :: atom and stack :: "(atom \<times> atom list) list"
    and visited :: "atom set" and out :: "atom list"
  have "card ((mentioned g \<union> mentioned stack) - visited)
      \<le> card ((mentioned g \<union> mentioned ((parent, []) # stack)) - visited)"
    by (simp add: mentioned_def)
  then show "((g, stack, visited, if stack = [] then out else out @ [parent]),
         (g, (parent, []) # stack, visited, out))
       \<in> inv_image (less_than <*lex*> less_than)
        (\<lambda>(g, st, vis, out). (card ((mentioned g \<union> mentioned st) - vis), stack_size st))"
    by (auto simp: stack_size_def)
next
  fix g :: graph and parent child :: atom and children :: "atom list"
    and stack :: "(atom \<times> atom list) list" and visited :: "atom set" and out :: "atom list"
  assume "child \<in> visited"
  then have "(mentioned g \<union> mentioned ((parent, children) # stack)) - visited
      = (mentioned g \<union> mentioned ((parent, child # children) # stack)) - visited"
    by (auto simp: mentioned_def)
  then show "((g, (parent, children) # stack, visited, out),
         (g, (parent, child # children) # stack, visited, out))
       \<in> inv_image (less_than <*lex*> less_than)
        (\<lambda>(g, st, vis, out). (card ((mentioned g \<union> mentioned st) - vis), stack_size st))"
    by (simp add: stack_size_def)
next
  fix g :: graph and parent child :: atom and children :: "atom list"
    and stack :: "(atom \<times> atom list) list" and visited :: "atom set" and out :: "atom list"
    and ns :: "atom list"
  assume c: "child \<notin> visited" and m: "map_of g child = Some ns"
  let ?old = "(mentioned g \<union> mentioned ((parent, child # children) # stack)) - visited"
  let ?new = "(mentioned g \<union> mentioned ((child, ns) # (parent, children) # stack))
                - insert child visited"
  have "finite ?old" by (simp add: mentioned_def)
  moreover have "set ns \<subseteq> mentioned g"
    using m by (auto simp: mentioned_def dest!: map_of_SomeD)
  then have "?new \<subseteq> ?old" by (auto simp: mentioned_def)
  moreover have "child \<in> ?old" using c by (simp add: mentioned_def)
  ultimately have "card ?new < card ?old"
    by (intro psubset_card_mono) auto
  then show "((g, (child, ns) # (parent, children) # stack, insert child visited, out),
         (g, (parent, child # children) # stack, visited, out))
       \<in> inv_image (less_than <*lex*> less_than)
        (\<lambda>(g, st, vis, out). (card ((mentioned g \<union> mentioned st) - vis), stack_size st))"
    by simp
qed

definition dfs_postorder_nodes :: "graph \<Rightarrow> atom \<Rightarrow> atom list \<times> error option" where
  "dfs_postorder_nodes g source =
     (case map_of g source of
        None \<Rightarrow> ([], Some (NodeNotInGraph source))
      | Some ns \<Rightarrow>
          (case dfs_loop g [(source, ns)] {source} [] of
             (out, None) \<Rightarrow> (out @ [source], None)
           | (out, Some e) \<Rightarrow> (out, Some e)))"

subsection \<open>The partition loop of \<open>determine_aggregates\<close>\<close>

text \<open>
  \<^verbatim>\<open>
  for atom in aggregate_atoms:
      aggregate.append(atom)
      atom_indices_list.remove(atom)
  \<close>
  \<open>list.remove\<close> deletes the first occurrence and raises \<open>ValueError\<close> when there is
  none. The traversal does not read the list, so the nodes it yields are consumed here
  in order; an error of the traversal comes after the nodes yielded before it.
\<close>

fun remove_atoms :: "atom list \<Rightarrow> atom list \<Rightarrow> error + atom list" where
  "remove_atoms [] atom_indices_list = Inr atom_indices_list"
| "remove_atoms (a # as) atom_indices_list =
     (if a \<in> set atom_indices_list then remove_atoms as (remove1 a atom_indices_list)
      else Inl (ValueError a))"

text \<open>
  \<^verbatim>\<open>
  while len(atom_indices_list) > 0:
      aggregate = []
      aggregate_atoms = nx.dfs_postorder_nodes(graph, atom_indices_list[0])
      for atom in aggregate_atoms:
          aggregate.append(atom)
          atom_indices_list.remove(atom)
      aggregates.append(aggregate)
  \<close>
\<close>

function partition_loop :: "graph \<Rightarrow> atom list \<Rightarrow> atom list list \<Rightarrow> error + atom list list" where
  "partition_loop g [] aggregates = Inr aggregates"
| "partition_loop g (a # as) aggregates =
     (case dfs_postorder_nodes g a of
        (aggregate, failure) \<Rightarrow>
          (case remove_atoms aggregate (a # as) of
             Inl e \<Rightarrow> Inl e
           | Inr rest \<Rightarrow>
               (case failure of
                  Some e \<Rightarrow> Inl e
                | None \<Rightarrow> partition_loop g rest (aggregates @ [aggregate]))))"
  by pat_completeness auto
termination
proof (relation "measure (\<lambda>(g, l, aggregates). length l)")
  show "wf (measure (\<lambda>(g, l, aggregates). length l))" by simp
next
  fix g :: graph and a :: atom and as :: "atom list" and aggregates :: "atom list list"
    and aggregate :: "atom list" and failure :: "error option" and rest :: "atom list"
  assume d: "(aggregate, failure) = dfs_postorder_nodes g a"
    and r: "remove_atoms aggregate (a # as) = Inr rest" and n: "failure = None"
  have shorter: "remove_atoms ys l = Inr l' \<Longrightarrow> length l = length ys + length l'"
    for ys l l'
  proof (induction ys arbitrary: l)
    case Nil
    then show ?case by simp
  next
    case (Cons y ys)
    from Cons.prems have y: "y \<in> set l" and "remove_atoms ys (remove1 y l) = Inr l'"
      by (auto split: if_splits)
    from Cons.IH [OF this(2)] have "length (remove1 y l) = length ys + length l'" .
    moreover from y have "0 < length l" by (cases l) auto
    with y have "length l = Suc (length (remove1 y l))"
      by (simp add: length_remove1)
    ultimately show ?case by simp
  qed
  from d n have "aggregate \<noteq> []"
    by (auto simp: dfs_postorder_nodes_def split: option.splits prod.splits)
  with shorter [OF r]
  show "((g, rest, aggregates @ [aggregate]), (g, a # as, aggregates))
      \<in> measure (\<lambda>(g, l, aggregates). length l)"
    by (cases aggregate) auto
qed

text \<open>The body of the loop over the frames, from the neighbor lists on.\<close>

definition frame_aggregates :: "atom list \<Rightarrow> neighborlists \<Rightarrow> error + atom list list" where
  "frame_aggregates atom_indices nl = partition_loop (build_graph nl) atom_indices []"

subsection \<open>The trajectory and the libraries around \<open>determine_aggregates\<close>\<close>

text \<open>
  A frame carries the text of its timestep (\<open>str(ts)\<close>), the position of every atom
  and the box. The universe has its atoms and its frames. The functions of the
  trajectory library, of Python and of the module \<open>aggregation\<close> that the code calls are
  collected in an environment; the results hold for every environment.
\<close>

record frame =
  ts_text :: string
  frame_positions :: "atom \<Rightarrow> vec"
  frame_dimensions :: "real list"

record universe =
  u_atoms :: "atom list"
  trajectory :: "frame list"

record env =
  py_str :: "real option \<Rightarrow> string"
  select_atoms :: "universe \<Rightarrow> string \<Rightarrow> error + atom list"
  neighbor_engine :: "atom list \<Rightarrow> real list list \<Rightarrow> real list \<Rightarrow> real option \<Rightarrow> error + neighborlists"
  py_float :: "string \<Rightarrow> real option"
  load_universe :: "string list \<Rightarrow> error + universe"

text \<open>The returned dictionary, as \<open>json.dumps\<close> prints it.\<close>

datatype json =
    JString string
  | JInt int
  | JList "json list"
  | JObject "(string \<times> json) list"

text \<open>
  \<open>data[str(ts)] = aggregates\<close>: a new key goes to the end of the dictionary, a key
  that is already there keeps its place and gets the new value.
\<close>

definition dict_set :: "(string \<times> 'v) list \<Rightarrow> string \<Rightarrow> 'v \<Rightarrow> (string \<times> 'v) list" where
  "dict_set d k v =
     (if k \<in> fst ` set d then map (\<lambda>e. if fst e = k then (k, v) else e) d else d @ [(k, v)])"

definition selected_atoms ::
  "env \<Rightarrow> universe \<Rightarrow> string option \<Rightarrow> error + atom list" where
  "selected_atoms E u selection =
     (case selection of None \<Rightarrow> Inr (u_atoms u) | Some query \<Rightarrow> select_atoms E u query)"

definition describe :: "env \<Rightarrow> real option \<Rightarrow> string option \<Rightarrow> string" where
  "describe E r_neigh selection =
     (let description = ''Lists of aggregates for a given timestep. Cutoff radius''
                        @ '' r_neigh ='' @ py_str E r_neigh
      in case selection of None \<Rightarrow> description
         | Some query \<Rightarrow> description @ '' Selection: '' @ query)"

definition frame_neighborlists ::
  "env \<Rightarrow> atom list \<Rightarrow> real option \<Rightarrow> frame \<Rightarrow> error + neighborlists" where
  "frame_neighborlists E atom_indices r_neigh ts =
     (let rx = map (\<lambda>a. fst (frame_positions ts a)) atom_indices;
          ry = map (\<lambda>a. fst (snd (frame_positions ts a))) atom_indices;
          rz = map (\<lambda>a. snd (snd (frame_positions ts a))) atom_indices;
          atom_positions = [rx, ry, rz]
      in neighbor_engine E atom_indices atom_positions (frame_dimensions ts) r_neigh)"

fun frames_loop ::
  "env \<Rightarrow> atom list \<Rightarrow> real option \<Rightarrow> frame list \<Rightarrow> (string \<times> atom list list) list
    \<Rightarrow> error + (string \<times> atom list list) list" where
  "frames_loop E atom_indices r_neigh [] data = Inr data"
| "frames_loop E atom_indices r_neigh (ts # rest) data =
     (case frame_neighborlists E atom_indices r_neigh ts of
        Inl e \<Rightarrow> Inl e
      | Inr neighborlists \<Rightarrow>
          (case frame_aggregates atom_indices neighborlists of
             Inl e \<Rightarrow> Inl e
           | Inr aggregates \<Rightarrow>
               frames_loop E atom_indices r_neigh rest (dict_set data (ts_text ts) aggregates)))"

definition json_of_aggregates :: "atom list list \<Rightarrow> json" where
  "json_of_aggregates aggregates = JList (map (\<lambda>aggregate. JList (map JInt aggregate)) aggregates)"

definition determine_aggregates ::
  "env \<Rightarrow> universe \<Rightarrow> real option \<Rightarrow> string option \<Rightarrow> error + json" where
  "determine_aggregates E u r_neigh selection =
     (case selected_atoms E u selection of
        Inl e \<Rightarrow> Inl e
      | Inr atom_indices \<Rightarrow>
          (case frames_loop E atom_indices r_neigh (trajectory u) [] of
             Inl e \<Rightarrow> Inl e
           | Inr data \<Rightarrow>
               Inr (JObject [(''description'', JString (describe E r_neigh selection)),
                             (''data'', JObject (map (\<lambda>e. (fst e, json_of_aggregates (snd e))) data))])))"

subsection \<open>The command line\<close>







subsection \<open>The neighbor-list engine\<close>

text \<open>
  Modelled from the spec: the displacement along one box edge under the minimum-image
  convention, which the missing module \<open>aggregation\<close> needs for its distances: the
  smallest displacement among all periodic images.
\<close>

definition minimum_image :: "real \<Rightarrow> real \<Rightarrow> real" where
  "minimum_image edge d = d - edge * of_int (round (d / edge))"

text \<open>
  Modelled from the spec: the center-to-center distance of two particles in the periodic
  box of the missing module \<open>aggregation\<close>, from the three box edges.
\<close>

definition image_distance :: "real list \<Rightarrow> vec \<Rightarrow> vec \<Rightarrow> real" where
  "image_distance box p q =
     (case p of (px, py, pz) \<Rightarrow> case q of (qx, qy, qz) \<Rightarrow>
        sqrt ((minimum_image (box ! 0) (px - qx))\<^sup>2
            + (minimum_image (box ! 1) (py - qy))\<^sup>2
            + (minimum_image (box ! 2) (pz - qz))\<^sup>2))"

text \<open>
  Modelled from the spec: \<open>calculate_neighborlists_from_distances\<close> of the module
  \<open>aggregation\<close>, which is not among the source files. Inputs: the ordered particle
  indices, the positions as three parallel coordinate arrays, the six-value box and the
  cutoff. Output: for every particle index the indices of all other particles whose
  distance, under the minimum-image convention, does not exceed the cutoff (inclusive);
  no particle is its own neighbor. A cutoff of \<open>None\<close> cannot be compared with a
  distance.
\<close>

definition calculate_neighborlists_from_distances ::
  "atom list \<Rightarrow> real list list \<Rightarrow> real list \<Rightarrow> real option \<Rightarrow> error + neighborlists" where
  "calculate_neighborlists_from_distances atom_indices atom_positions box r_max =
     (case r_max of
        None \<Rightarrow> Inl TypeError
      | Some r \<Rightarrow>
          (let particles = zip atom_indices
                 (zip (atom_positions ! 0) (zip (atom_positions ! 1) (atom_positions ! 2)))
           in Inr (map (\<lambda>(a, p).
                     (a, map fst (filter (\<lambda>(b, q). b \<noteq> a \<and> image_distance box p q \<le> r)
                                    particles)))
                   particles)))"

section \<open>Synthetic configuration generator (mouse2\_tests/create\_configuration.py)\<close>

text \<open>Coordinates are real numbers; rounding is not modelled.\<close>

definition RANDOM_SEED :: int where "RANDOM_SEED = 42"
definition CELL :: "real list" where "CELL = [100, 100, 100, 90, 90, 90]"
definition NMOL :: nat where "NMOL = 4000"
definition NPOLY :: nat where "NPOLY = 20"
definition LBOND :: real where "LBOND = 1"
definition RTUBE :: real where "RTUBE = 0.53"
definition PITCH :: real where "PITCH = 1.66"
definition PER_TURN :: real where "PER_TURN = 3.3"

definition vec_add :: "vec \<Rightarrow> vec \<Rightarrow> vec" where
  "vec_add a b = (case a of (ax, ay, az) \<Rightarrow> case b of (bx, by, bz) \<Rightarrow> (ax + bx, ay + by, az + bz))"

definition dot :: "vec \<Rightarrow> vec \<Rightarrow> real" where
  "dot a b = (case a of (ax, ay, az) \<Rightarrow> case b of (bx, by, bz) \<Rightarrow> ax * bx + ay * by + az * bz)"

text \<open>
  A rotation of the rotation library is kept as the rows of its matrix;
  \<open>Rotation.apply(rotation, v)\<close> is the product of the matrix with \<open>v\<close>.
\<close>

type_synonym rotation = "vec \<times> vec \<times> vec"

definition rotation_apply :: "rotation \<Rightarrow> vec \<Rightarrow> vec" where
  "rotation_apply r v = (case r of (r1, r2, r3) \<Rightarrow> (dot r1 v, dot r2 v, dot r3 v))"

text \<open>
  The two sources of random numbers. \<open>random.random()\<close> reads the generator of Python's
  module \<open>random\<close>, which \<open>random.seed(RANDOM_SEED)\<close> has seeded: its draws are a function
  \<open>py_random\<close> of the seed and of the number of draws made before. \<open>Rotation.random()\<close>
  is called without a generator of its own and draws from the global generator of the
  array library; the script never seeds that one, so its draws \<open>np_draw\<close> belong to the
  run and not to the seed. Each generator is a sequence, and the state of the program
  holds how many draws it has taken from each.
\<close>

text \<open>Python's slices \<open>s[:n]\<close> and \<open>s[-n:]\<close> (the whole string when it is shorter).\<close>

definition slice_to :: "nat \<Rightarrow> string \<Rightarrow> string" where
  "slice_to n s = take n s"

definition slice_last :: "nat \<Rightarrow> string \<Rightarrow> string" where
  "slice_last n s = drop (length s - n) s"

text \<open>
  \<^verbatim>\<open>
  x = RTUBE * math.cos((iatom + 1) * 2. * math.pi / PER_TURN)
  y = RTUBE * math.sin((iatom + 1) * 2. * math.pi / PER_TURN)
  z = PITCH * (iatom + 1) / PER_TURN
  \<close>
  with \<open>j\<close> for \<open>iatom + 1\<close>.
\<close>

definition helix_point :: "nat \<Rightarrow> vec" where
  "helix_point j =
     (RTUBE * cos (real j * 2 * pi / PER_TURN),
      RTUBE * sin (real j * 2 * pi / PER_TURN),
      PITCH * real j / PER_TURN)"

text \<open>
  The end of the body of the loop over the atoms, "calculating coordinates for the next
  atom": three independent tests on the type token, in this order. The state is the
  current \<open>(x, y, z)\<close> and the number of rotations drawn so far.
  \<^verbatim>\<open>
  if system_type[:6] == "random":
      bond_vector = [0., 0., LBOND]
      rotation = Rotation.random()
      rotated_bond = Rotation.apply(rotation, bond_vector)
      x += rotated_bond[0]; y += rotated_bond[1]; z += rotated_bond[2]
  if system_type[-4:] == "rods":
      bond_vector = [0., 0., LBOND]
      x += bond_vector[0]; y += bond_vector[1]; z += bond_vector[2]
  if system_type[-7:] == "helices":
      x = ...; y = ...; z = ...
  \<close>
\<close>

definition next_position ::
  "string \<Rightarrow> (nat \<Rightarrow> rotation) \<Rightarrow> nat \<Rightarrow> vec \<times> nat \<Rightarrow> vec \<times> nat" where
  "next_position system_type np_draw iatom s =
     (let s1 = (if slice_to 6 system_type = ''random''
                then (let bond_vector = (0, 0, LBOND);
                          rotation = np_draw (snd s);
                          rotated_bond = rotation_apply rotation bond_vector
                      in (vec_add (fst s) rotated_bond, Suc (snd s)))
                else s);
          s2 = (if slice_last 4 system_type = ''rods''
                then (let bond_vector = (0, 0, LBOND) in (vec_add (fst s1) bond_vector, snd s1))
                else s1);
          s3 = (if slice_last 7 system_type = ''helices''
                then (helix_point (iatom + 1), snd s2)
                else s2)
      in s3)"

text \<open>
  The loop \<open>for iatom in range(NPOLY)\<close>: the atom gets the current coordinates, then the
  coordinates of the next atom are computed (also after the last atom). The result is
  the list of the atoms' positions before the molecule is rotated and translated, and the
  number of rotations drawn.
\<close>

fun build_chain ::
  "string \<Rightarrow> (nat \<Rightarrow> rotation) \<Rightarrow> nat list \<Rightarrow> vec \<times> nat \<Rightarrow> vec list \<times> nat" where
  "build_chain system_type np_draw [] s = ([], snd s)"
| "build_chain system_type np_draw (iatom # rest) s =
     (let r = build_chain system_type np_draw rest (next_position system_type np_draw iatom s)
      in (fst s # fst r, snd r))"

text \<open>
  The variable \<open>molecule_rotation\<close> is assigned before the loop over the molecules when
  the token does not start with \<open>disordered\<close>, and inside the loop when it does; reading
  it unassigned would raise.
\<close>

datatype gen_error = UnboundLocalError

record molecule =
  resid :: nat
  first_ix :: nat
  local_positions :: "vec list"
  rotation :: rotation
  translation_vector :: vec
  positions :: "vec list"

record gen_state =
  ix :: nat
  np_n :: nat
  py_n :: nat
  molecule_rotation :: "rotation option"

text \<open>
  One pass of the loop \<open>for imol in range(NMOL)\<close>:
  \<^verbatim>\<open>
  translation_vector = np.array(CELL[:3]) * \
          np.array([random.random(), random.random(), random.random()])
  if system_type[:10] == "disordered":
      molecule_rotation = Rotation.random()
  molecule_group.atoms.positions = Rotation.apply(molecule_rotation,
                                  molecule_group.atoms.positions)
  molecule_group.atoms.positions += translation_vector
  \<close>
  The molecule is kept with its positions before and after the placement, and with the
  rotation and the translation that were applied.
\<close>

definition make_molecule ::
  "string \<Rightarrow> (nat \<Rightarrow> real) \<Rightarrow> (nat \<Rightarrow> rotation) \<Rightarrow> nat \<Rightarrow> gen_state
    \<Rightarrow> gen_error + molecule \<times> gen_state" where
  "make_molecule system_type py_draw np_draw imol s =
     (let chain = build_chain system_type np_draw [0..<NPOLY] ((0, 0, 0), np_n s);
          m = py_n s;
          translation_vector =
            (CELL ! 0 * py_draw m, CELL ! 1 * py_draw (m + 1), CELL ! 2 * py_draw (m + 2));
          r = (if slice_to 10 system_type = ''disordered''
               then (Some (np_draw (snd chain)), Suc (snd chain))
               else (molecule_rotation s, snd chain))
      in case fst r of
           None \<Rightarrow> Inl UnboundLocalError
         | Some rot \<Rightarrow>
             Inr (\<lparr>resid = imol + 1, first_ix = ix s, local_positions = fst chain,
                   rotation = rot, translation_vector = translation_vector,
                   positions = map (\<lambda>p. vec_add (rotation_apply rot p) translation_vector)
                                 (fst chain)\<rparr>,
                  \<lparr>ix = ix s + NPOLY, np_n = snd r, py_n = m + 3,
                   molecule_rotation = Some rot\<rparr>))"

fun molecules_loop ::
  "string \<Rightarrow> (nat \<Rightarrow> real) \<Rightarrow> (nat \<Rightarrow> rotation) \<Rightarrow> nat list \<Rightarrow> gen_state
    \<Rightarrow> gen_error + molecule list" where
  "molecules_loop system_type py_draw np_draw [] s = Inr []"
| "molecules_loop system_type py_draw np_draw (imol # rest) s =
     (case make_molecule system_type py_draw np_draw imol s of
        Inl e \<Rightarrow> Inl e
      | Inr (m, s') \<Rightarrow>
          (case molecules_loop system_type py_draw np_draw rest s' of
             Inl e \<Rightarrow> Inl e
           | Inr ms \<Rightarrow> Inr (m # ms)))"

text \<open>
  \<^verbatim>\<open>
  random.seed(RANDOM_SEED)
  ...
  if system_type[:10] != "disordered":
      molecule_rotation = Rotation.random()
  for imol in range(NMOL):
  \<close>
\<close>

definition main_molecules ::
  "(int \<Rightarrow> nat \<Rightarrow> real) \<Rightarrow> (nat \<Rightarrow> rotation) \<Rightarrow> string \<Rightarrow> gen_error + molecule list" where
  "main_molecules py_random np_draw system_type =
     (let py_draw = py_random RANDOM_SEED;
          s0 = \<lparr>ix = 0, np_n = 0, py_n = 0, molecule_rotation = None\<rparr>;
          s1 = (if slice_to 10 system_type \<noteq> ''disordered''
                then s0\<lparr>np_n := 1, molecule_rotation := Some (np_draw 0)\<rparr>
                else s0)
      in molecules_loop system_type py_draw np_draw [0..<NMOL] s1)"

text \<open>
  What is written to the output file: the box, and per atom its position, type, mass and
  residue; the bonds \<open>[ix - 1, ix]\<close> of every atom but the first of its molecule, with
  their types.
\<close>

record configuration =
  dimensions :: "real list"
  atom_positions :: "vec list"
  atom_types :: "string list"
  atom_masses :: "real list"
  atom_resids :: "nat list"
  bonds :: "(nat \<times> nat) list"
  bond_types :: "string list"

definition molecule_bonds :: "molecule \<Rightarrow> (nat \<times> nat) list" where
  "molecule_bonds m = map (\<lambda>iatom. (first_ix m + iatom - 1, first_ix m + iatom)) [1..<NPOLY]"

definition assemble :: "molecule list \<Rightarrow> configuration" where
  "assemble ms =
     \<lparr>dimensions = CELL,
      atom_positions = concat (map positions ms),
      atom_types = concat (map (\<lambda>m. replicate NPOLY ''1'') ms),
      atom_masses = concat (map (\<lambda>m. replicate NPOLY 1) ms),
      atom_resids = concat (map (\<lambda>m. replicate NPOLY (resid m)) ms),
      bonds = concat (map molecule_bonds ms),
      bond_types = concat (map (\<lambda>m. replicate (NPOLY - 1) ''1'') ms)\<rparr>"

definition main ::
  "(int \<Rightarrow> nat \<Rightarrow> real) \<Rightarrow> (nat \<Rightarrow> rotation) \<Rightarrow> string \<Rightarrow> gen_error + configuration" where
  "main py_random np_draw system_type =
     (case main_molecules py_random np_draw system_type of
        Inl e \<Rightarrow> Inl e
      | Inr ms \<Rightarrow> Inr (assemble ms))"

section \<open>Vocabulary of the results\<close>

subsection \<open>Graphs and traversals\<close>

definition nodes :: "graph \<Rightarrow> atom set" where
  "nodes g = fst ` set g"

definition succs :: "graph \<Rightarrow> atom \<Rightarrow> atom set" where
  "succs g u = (case map_of g u of None \<Rightarrow> {} | Some ns \<Rightarrow> set ns)"

definition graph_ok :: "graph \<Rightarrow> bool" where
  "graph_ok g \<longleftrightarrow> (\<forall>u v. v \<in> succs g u \<longrightarrow> v \<in> nodes g \<and> u \<in> succs g v)"

definition reach :: "graph \<Rightarrow> atom \<Rightarrow> atom set" where
  "reach g s = {v. (s, v) \<in> {(u, w). w \<in> succs g u}\<^sup>*}"

definition dfs_inv ::
  "graph \<Rightarrow> atom \<Rightarrow> (atom \<times> atom list) list \<Rightarrow> atom set \<Rightarrow> atom list \<Rightarrow> bool" where
  "dfs_inv g s st vis out \<longleftrightarrow>
     distinct (map fst st) \<and> distinct out \<and> set (map fst st) \<inter> set out = {} \<and>
     s \<notin> set out \<and>
     vis = insert s (set (map fst st) \<union> set out) \<and>
     (st \<noteq> [] \<longrightarrow> fst (last st) = s) \<and>
     (st = [] \<longrightarrow> succs g s \<subseteq> vis) \<and>
     (\<forall>x\<in>set out. succs g x \<subseteq> vis) \<and>
     (\<forall>e\<in>set st. set (snd e) \<subseteq> succs g (fst e) \<and> succs g (fst e) - set (snd e) \<subseteq> vis) \<and>
     vis \<subseteq> reach g s"

definition sealed :: "graph \<Rightarrow> atom set \<Rightarrow> bool" where
  "sealed g L \<longleftrightarrow> (\<forall>u\<in>L. succs g u \<subseteq> L)"

text \<open>
  What the partition loop expects of the neighbor lists of a frame: every key and every
  listed neighbor is one of the selected atom indices. An atom has a neighbor when some
  non-empty list is its own or holds it.
\<close>

definition neighbors_selected :: "atom list \<Rightarrow> neighborlists \<Rightarrow> bool" where
  "neighbors_selected atom_indices nl \<longleftrightarrow>
     (\<forall>e\<in>set nl. fst e \<in> set atom_indices \<and> set (snd e) \<subseteq> set atom_indices)"

definition has_neighbor :: "neighborlists \<Rightarrow> atom \<Rightarrow> bool" where
  "has_neighbor nl a \<longleftrightarrow> (\<exists>e\<in>set nl. snd e \<noteq> [] \<and> (fst e = a \<or> a \<in> set (snd e)))"


subsection \<open>Example data\<close>

text \<open>
  The library functions at the arguments of the examples: Python's \<open>str\<close> and
  \<open>float\<close>, the selection language (\<open>all\<close> selects every atom) and the loader, which
  knows two files. The first file has three particles on a line, one unit apart, in a
  box of edge 100, in two frames; the second has two particles at the same place, in one
  frame.
\<close>

definition example_str :: "real option \<Rightarrow> string" where
  "example_str r =
     (if r = None then ''None'' else if r = Some 1.2 then ''1.2'' else if r = Some 0 then ''0.0''
      else if r = Some (-1) then ''-1.0'' else if r = Some 0.5 then ''0.5'' else [])"

definition example_float :: "string \<Rightarrow> real option" where
  "example_float token =
     (if token = ''1.2'' then Some 1.2 else if token = ''0'' then Some 0
      else if token = ''-1'' then Some (-1) else if token = ''0.5'' then Some 0.5 else None)"

definition line_positions :: "atom \<Rightarrow> vec" where
  "line_positions a = (if a = 0 then (0, 0, 0) else if a = 1 then (1, 0, 0) else (2, 0, 0))"

definition line_universe :: universe where
  "line_universe =
     \<lparr>u_atoms = [0, 1, 2],
      trajectory =
        [\<lparr>ts_text = ''< Timestep 0 >'', frame_positions = line_positions,
          frame_dimensions = [100, 100, 100, 90, 90, 90]\<rparr>,
         \<lparr>ts_text = ''< Timestep 1 >'', frame_positions = line_positions,
          frame_dimensions = [100, 100, 100, 90, 90, 90]\<rparr>]\<rparr>"

definition pair_universe :: universe where
  "pair_universe =
     \<lparr>u_atoms = [0, 1],
      trajectory =
        [\<lparr>ts_text = ''< Timestep 0 >'', frame_positions = (\<lambda>a. (5, 5, 5)),
          frame_dimensions = [100, 100, 100, 90, 90, 90]\<rparr>]\<rparr>"

definition example_env :: env where
  "example_env =
     \<lparr>py_str = example_str,
      select_atoms = (\<lambda>u query. if query = ''all'' then Inr (u_atoms u) else Inl SelectionError),
      neighbor_engine = calculate_neighborlists_from_distances,
      py_float = example_float,
      load_universe =
        (\<lambda>files. if files = [''line.gro''] then Inr line_universe
                 else if files = [''pair.gro''] then Inr pair_universe
                 else Inl InputError)\<rparr>"



text \<open>Two rotations: the identity and a quarter turn about the x axis.\<close>

definition rot_id :: rotation where "rot_id = ((1, 0, 0), (0, 1, 0), (0, 0, 1))"

definition rot_x90 :: rotation where "rot_x90 = ((1, 0, 0), (0, 0, -1), (0, 1, 0))"

text \<open>The distance of a point from the z axis, the axis of the helix.\<close>

definition radial :: "vec \<Rightarrow> real" where
  "radial p = (case p of (x, y, z) \<Rightarrow> sqrt (x\<^sup>2 + y\<^sup>2))"

definition vec_sub :: "vec \<Rightarrow> vec \<Rightarrow> vec" where
  "vec_sub a b = (case a of (ax, ay, az) \<Rightarrow> case b of (bx, by, bz) \<Rightarrow> (ax - bx, ay - by, az - bz))"

text \<open>
  The rotations that the generator has drawn when it starts the chain of a molecule. The
  chain of one molecule draws a rotation per atom when the token starts with \<open>random\<close>,
  and none otherwise.
\<close>

definition chain_draws :: "string \<Rightarrow> nat" where
  "chain_draws t = (if slice_to 6 t = ''random'' then NPOLY else 0)"

text \<open>
  One pass of the loop over the molecules draws the rotations of the chain and, when
  the token starts with \<open>disordered\<close>, the rotation of the molecule.
\<close>

definition molecule_draws :: "string \<Rightarrow> nat" where
  "molecule_draws t = chain_draws t + (if slice_to 10 t = ''disordered'' then 1 else 0)"

text \<open>
  Before the loop one rotation is drawn unless the token starts with \<open>disordered\<close>;
  the chain of molecule \<open>k\<close> starts after that draw and the draws of \<open>k\<close> passes.
\<close>

definition chain_start :: "string \<Rightarrow> nat \<Rightarrow> nat" where
  "chain_start t k = (if slice_to 10 t = ''disordered'' then 0 else 1) + k * molecule_draws t"

section \<open>Aggregate detection: results\<close>

subsection \<open>The graph and the traversal\<close>



lemma nodes_dom: "nodes g = dom (map_of g)"
  by (simp add: nodes_def dom_map_of_conv_image_fst)

lemma nodes_add_node: "nodes (add_node g u) = insert u (nodes g)"
  by (auto simp: add_node_def nodes_def)

lemma succs_add_node: "succs (add_node g u) w = succs g w"
proof (cases "u \<in> fst ` set g")
  case True
  then show ?thesis by (simp add: add_node_def)
next
  case False
  then have "map_of g u = None" by (simp add: map_of_eq_None_iff)
  then show ?thesis using False
    by (auto simp: add_node_def succs_def map_add_def split: option.splits if_splits)
qed

lemma nodes_add_adj: "nodes (add_adj g u v) = nodes g"
  by (force simp: add_adj_def nodes_def split: prod.splits)

lemma map_of_add_adj:
  "map_of (add_adj g u v) w =
     map_option (\<lambda>ns. if w = u then (if v \<in> set ns then ns else ns @ [v]) else ns) (map_of g w)"
  unfolding add_adj_def by (induction g) auto

lemma succs_add_adj:
  "succs (add_adj g u v) w = (if w = u \<and> u \<in> nodes g then insert v (succs g w) else succs g w)"
  by (auto simp: succs_def map_of_add_adj nodes_dom split: option.splits)

lemma nodes_add_edge: "nodes (add_edge g u v) = insert u (insert v (nodes g))"
  by (auto simp: add_edge_def nodes_add_adj nodes_add_node)

lemma succs_add_edge:
  "succs (add_edge g u v) w =
     succs g w \<union> (if w = u then {v} else {}) \<union> (if w = v then {u} else {})"
  by (auto simp: add_edge_def succs_add_adj nodes_add_adj nodes_add_node succs_add_node)

lemma graph_ok_add_edge: "graph_ok g \<Longrightarrow> graph_ok (add_edge g u v)"
  unfolding graph_ok_def by (auto simp: succs_add_edge nodes_add_edge split: if_splits)

lemma graph_ok_Nil: "graph_ok []"
  by (simp add: graph_ok_def succs_def)

lemma graph_ok_add_neighbors: "graph_ok g \<Longrightarrow> graph_ok (add_neighbors g e)"
proof -
  have "graph_ok g \<Longrightarrow> graph_ok (foldl (\<lambda>h n. add_edge h a n) g ns)" for a ns
    by (induction ns arbitrary: g) (auto intro: graph_ok_add_edge)
  then show "graph_ok g \<Longrightarrow> graph_ok (add_neighbors g e)"
    by (simp add: add_neighbors_def)
qed

lemma nodes_add_neighbors:
  "nodes (add_neighbors g e) = nodes g \<union> (if snd e = [] then {} else insert (fst e) (set (snd e)))"
proof -
  have "nodes (foldl (\<lambda>h n. add_edge h a n) g ns)
      = nodes g \<union> (if ns = [] then {} else insert a (set ns))" for a ns
    by (induction ns arbitrary: g) (auto simp: nodes_add_edge)
  then show ?thesis by (simp add: add_neighbors_def)
qed

lemma graph_ok_foldl: "graph_ok g \<Longrightarrow> graph_ok (foldl add_neighbors g nl)"
  by (induction nl arbitrary: g) (auto intro: graph_ok_add_neighbors)

lemma graph_ok_build_graph: "graph_ok (build_graph nl)"
  by (simp add: build_graph_def graph_ok_foldl graph_ok_Nil)

lemma nodes_foldl:
  "nodes (foldl add_neighbors g nl)
     = nodes g \<union> (\<Union>e\<in>set nl. if snd e = [] then {} else insert (fst e) (set (snd e)))"
  by (induction nl arbitrary: g) (auto simp: nodes_add_neighbors)

lemma nodes_build_graph:
  "nodes (build_graph nl) = (\<Union>e\<in>set nl. if snd e = [] then {} else insert (fst e) (set (snd e)))"
  unfolding build_graph_def nodes_foldl by (simp add: nodes_def)

lemma reach_refl: "s \<in> reach g s"
  by (simp add: reach_def)

lemma reach_step: "u \<in> reach g s \<Longrightarrow> v \<in> succs g u \<Longrightarrow> v \<in> reach g s"
  unfolding reach_def by (auto intro: rtrancl_into_rtrancl)

lemma reach_least:
  assumes "s \<in> C" and "\<And>u v. u \<in> C \<Longrightarrow> v \<in> succs g u \<Longrightarrow> v \<in> C"
  shows "reach g s \<subseteq> C"
proof
  fix v assume "v \<in> reach g s"
  then have "(s, v) \<in> {(u, w). w \<in> succs g u}\<^sup>*" by (simp add: reach_def)
  then show "v \<in> C"
    by (induction rule: rtrancl_induct) (use assms in auto)
qed

lemma dfs_inv_init:
  assumes "map_of g s = Some ns"
  shows "dfs_inv g s [(s, ns)] {s} []"
  using assms by (simp add: dfs_inv_def succs_def reach_refl)

lemma dfs_inv_pop_last:
  assumes "dfs_inv g s [(p, [])] vis out"
  shows "dfs_inv g s [] vis out"
  using assms unfolding dfs_inv_def by auto

lemma dfs_inv_pop:
  assumes "dfs_inv g s ((p, []) # st) vis out" and "st \<noteq> []"
  shows "dfs_inv g s st vis (out @ [p])"
proof -
  from assms have "fst (last st) = s" unfolding dfs_inv_def by simp
  with assms(2) have "s \<in> fst ` set st" by (metis last_in_set imageI)
  moreover from assms(1) have "p \<notin> fst ` set st" unfolding dfs_inv_def by simp
  ultimately have ps: "p \<noteq> s" by blast
  from assms(1) have d: "distinct (map fst st)" "distinct out" "p \<notin> set out"
    "fst ` set st \<inter> set out = {}" "s \<notin> set out" "p \<notin> fst ` set st"
    "vis = insert s (insert p (fst ` set st \<union> set out))"
    "\<forall>x\<in>set out. succs g x \<subseteq> vis" "succs g p \<subseteq> vis"
    "\<forall>e\<in>set st. set (snd e) \<subseteq> succs g (fst e) \<and> succs g (fst e) - set (snd e) \<subseteq> vis"
    "vis \<subseteq> reach g s"
    unfolding dfs_inv_def by auto
  show ?thesis
    unfolding dfs_inv_def
  proof (intro conjI)
    show "vis = insert s (set (map fst st) \<union> set (out @ [p]))" using d(7) by auto
    show "set (map fst st) \<inter> set (out @ [p]) = {}" using d(4,6) by auto
  qed (use d ps assms(2) \<open>fst (last st) = s\<close> in auto)
qed

lemma dfs_inv_skip:
  assumes "dfs_inv g s ((p, c # cs) # st) vis out" and "c \<in> vis"
  shows "dfs_inv g s ((p, cs) # st) vis out"
proof -
  from assms(1) have d: "distinct (map fst ((p, cs) # st))" "distinct out"
    "set (map fst ((p, cs) # st)) \<inter> set out = {}" "s \<notin> set out"
    "vis = insert s (set (map fst ((p, cs) # st)) \<union> set out)"
    "fst (last ((p, cs) # st)) = s"
    "\<forall>x\<in>set out. succs g x \<subseteq> vis"
    "set (c # cs) \<subseteq> succs g p" "succs g p - set (c # cs) \<subseteq> vis"
    "\<forall>e\<in>set st. set (snd e) \<subseteq> succs g (fst e) \<and> succs g (fst e) - set (snd e) \<subseteq> vis"
    "vis \<subseteq> reach g s"
    unfolding dfs_inv_def by auto
  from d(8,9) assms(2) have "set cs \<subseteq> succs g p" "succs g p - set cs \<subseteq> vis" by auto
  with d(10) have "\<forall>e\<in>set ((p, cs) # st).
      set (snd e) \<subseteq> succs g (fst e) \<and> succs g (fst e) - set (snd e) \<subseteq> vis"
    by simp
  with d(1-7,11) show ?thesis unfolding dfs_inv_def by blast
qed

lemma dfs_inv_push:
  assumes "dfs_inv g s ((p, c # cs) # st) vis out" and "c \<notin> vis"
    and "map_of g c = Some ns"
  shows "dfs_inv g s ((c, ns) # (p, cs) # st) (insert c vis) out"
proof -
  from assms(1) have d: "distinct (map fst ((p, cs) # st))" "distinct out"
    "set (map fst ((p, cs) # st)) \<inter> set out = {}" "s \<notin> set out"
    "vis = insert s (set (map fst ((p, cs) # st)) \<union> set out)"
    "fst (last ((p, cs) # st)) = s"
    "\<forall>x\<in>set out. succs g x \<subseteq> vis"
    "set (c # cs) \<subseteq> succs g p" "succs g p - set (c # cs) \<subseteq> vis"
    "\<forall>e\<in>set st. set (snd e) \<subseteq> succs g (fst e) \<and> succs g (fst e) - set (snd e) \<subseteq> vis"
    "vis \<subseteq> reach g s"
    unfolding dfs_inv_def by auto
  from d(5) have "p \<in> vis" by simp
  with d(11) have "p \<in> reach g s" by blast
  moreover from d(8) have "c \<in> succs g p" by simp
  ultimately have cr: "c \<in> reach g s" by (rule reach_step)
  have sc: "succs g c = set ns" using assms(3) by (simp add: succs_def)
  show ?thesis
    unfolding dfs_inv_def
  proof (intro conjI)
    show "distinct (map fst ((c, ns) # (p, cs) # st))"
      using d(1,5) assms(2) by auto
    show "distinct out" by (rule d(2))
    show "set (map fst ((c, ns) # (p, cs) # st)) \<inter> set out = {}"
      using d(3,5) assms(2) by auto
    show "s \<notin> set out" by (rule d(4))
    show "insert c vis = insert s (set (map fst ((c, ns) # (p, cs) # st)) \<union> set out)"
      using d(5) by auto
    show "(c, ns) # (p, cs) # st \<noteq> [] \<longrightarrow> fst (last ((c, ns) # (p, cs) # st)) = s"
      using d(6) by simp
    show "(c, ns) # (p, cs) # st = [] \<longrightarrow> succs g s \<subseteq> insert c vis" by simp
    show "\<forall>x\<in>set out. succs g x \<subseteq> insert c vis" using d(7) by blast
    show "\<forall>e\<in>set ((c, ns) # (p, cs) # st).
       set (snd e) \<subseteq> succs g (fst e) \<and> succs g (fst e) - set (snd e) \<subseteq> insert c vis"
      using d(8,9,10) sc by auto
    show "insert c vis \<subseteq> reach g s" using d(11) cr by simp
  qed
qed

lemma dfs_loop_inv:
  shows "graph_ok g \<Longrightarrow> dfs_inv g s st vis out \<Longrightarrow> dfs_loop g st vis out = (ys, e)
    \<Longrightarrow> e = None \<and> dfs_inv g s [] (insert s (set ys)) ys"
proof (induction g st vis out rule: dfs_loop.induct)
  case (1 g visited out)
  then show ?case by (auto simp: dfs_inv_def)
next
  case (2 g parent stack visited out)
  show ?case
  proof (cases "stack = []")
    case True
    with "2.prems"(2) have "dfs_inv g s stack visited out"
      by (auto intro: dfs_inv_pop_last)
    with 2 True show ?thesis by simp
  next
    case False
    with "2.prems"(2) have "dfs_inv g s stack visited (out @ [parent])"
      by (auto intro: dfs_inv_pop)
    with 2 False show ?thesis by simp
  qed
next
  case (3 g parent child children stack visited out)
  show ?case
  proof (cases "child \<in> visited")
    case True
    with "3.prems"(2) have "dfs_inv g s ((parent, children) # stack) visited out"
      by (auto intro: dfs_inv_skip)
    with 3 True show ?thesis by simp
  next
    case False
    from "3.prems"(2) have "child \<in> succs g parent" by (auto simp: dfs_inv_def)
    with "3.prems"(1) have "child \<in> nodes g" by (auto simp: graph_ok_def)
    then obtain ns where ns: "map_of g child = Some ns" by (auto simp: nodes_dom)
    with "3.prems"(2) False
    have "dfs_inv g s ((child, ns) # (parent, children) # stack) (insert child visited) out"
      by (auto intro: dfs_inv_push)
    with 3 False ns show ?thesis by simp
  qed
qed

lemma dfs_postorder_nodes_missing:
  "s \<notin> nodes g \<Longrightarrow> dfs_postorder_nodes g s = ([], Some (NodeNotInGraph s))"
  by (auto simp: dfs_postorder_nodes_def nodes_dom split: option.splits)

lemma dfs_postorder_nodes_component:
  assumes "graph_ok g" and "s \<in> nodes g"
  shows "\<exists>ys. dfs_postorder_nodes g s = (ys, None) \<and> distinct ys \<and> set ys = reach g s"
proof -
  from assms(2) obtain ns where ns: "map_of g s = Some ns" by (auto simp: nodes_dom)
  obtain out e where l: "dfs_loop g [(s, ns)] {s} [] = (out, e)" by (cases "dfs_loop g [(s, ns)] {s} []")
  from dfs_loop_inv [OF assms(1) dfs_inv_init [OF ns] l]
  have e: "e = None" and inv: "dfs_inv g s [] (insert s (set out)) out" by auto
  from ns l e have r: "dfs_postorder_nodes g s = (out @ [s], None)"
    by (simp add: dfs_postorder_nodes_def)
  from inv have d: "distinct out" "s \<notin> set out" "succs g s \<subseteq> insert s (set out)"
    "\<forall>x\<in>set out. succs g x \<subseteq> insert s (set out)" "insert s (set out) \<subseteq> reach g s"
    unfolding dfs_inv_def by auto
  have "reach g s \<subseteq> insert s (set out)"
    by (rule reach_least) (use d(3,4) in auto)
  with d(5) have "set (out @ [s]) = reach g s" by auto
  moreover from d(1,2) have "distinct (out @ [s])" by simp
  ultimately show ?thesis using r by blast
qed

text \<open>Removing a duplicate-free list of members.\<close>

lemma remove_atoms_ok:
  "distinct ys \<Longrightarrow> set ys \<subseteq> set l \<Longrightarrow> distinct l
    \<Longrightarrow> \<exists>l'. remove_atoms ys l = Inr l' \<and> distinct l' \<and> set l' = set l - set ys"
proof (induction ys arbitrary: l)
  case Nil
  then show ?case by simp
next
  case (Cons a ys)
  from Cons.prems have "distinct ys" "set ys \<subseteq> set (remove1 a l)" "distinct (remove1 a l)"
    by auto
  from Cons.IH [OF this] obtain l' where
    "remove_atoms ys (remove1 a l) = Inr l'" "distinct l'" "set l' = set (remove1 a l) - set ys"
    by blast
  with Cons.prems show ?case by auto
qed

lemma reach_sealed: "sealed g L \<Longrightarrow> a \<in> L \<Longrightarrow> reach g a \<subseteq> L"
  by (rule reach_least) (auto simp: sealed_def)


lemma sealed_minus_reach:
  assumes "graph_ok g" and "sealed g L"
  shows "sealed g (L - reach g a)"
  unfolding sealed_def
proof (intro ballI subsetI)
  fix u v assume u: "u \<in> L - reach g a" and v: "v \<in> succs g u"
  from u v assms(2) have "v \<in> L" by (auto simp: sealed_def)
  moreover have "v \<notin> reach g a"
  proof
    assume "v \<in> reach g a"
    moreover from v assms(1) have "u \<in> succs g v" by (auto simp: graph_ok_def)
    ultimately have "u \<in> reach g a" by (rule reach_step)
    with u show False by simp
  qed
  ultimately show "v \<in> L - reach g a" by simp
qed



lemma partition_loop_step:
  assumes "graph_ok g" and "distinct (a # as)" and "sealed g (set (a # as))"
    and "a \<in> nodes g"
  shows "\<exists>ys rest. dfs_postorder_nodes g a = (ys, None) \<and> remove_atoms ys (a # as) = Inr rest
      \<and> distinct rest \<and> sealed g (set rest) \<and> set rest = set (a # as) - reach g a
      \<and> partition_loop g (a # as) aggregates = partition_loop g rest (aggregates @ [ys])"
proof -
  from dfs_postorder_nodes_component [OF assms(1,4)] obtain ys where
    d: "dfs_postorder_nodes g a = (ys, None)" and ys: "distinct ys" "set ys = reach g a"
    by blast
  have "reach g a \<subseteq> set (a # as)" by (rule reach_sealed [OF assms(3)]) simp
  with ys have "set ys \<subseteq> set (a # as)" by simp
  from remove_atoms_ok [OF ys(1) this assms(2)] obtain rest where
    r: "remove_atoms ys (a # as) = Inr rest" "distinct rest" "set rest = set (a # as) - set ys"
    by blast
  from sealed_minus_reach [OF assms(1,3), of a] r(3) ys(2)
  have "sealed g (set rest)" by simp
  moreover from d r(1)
  have "partition_loop g (a # as) aggregates = partition_loop g rest (aggregates @ [ys])"
    by simp
  ultimately show ?thesis using d r ys(2) by auto
qed

lemma reach_nodes:
  assumes "graph_ok g" and "a \<in> nodes g" shows "reach g a \<subseteq> nodes g"
  by (rule reach_least) (use assms in \<open>auto simp: graph_ok_def\<close>)

lemma partition_loop_missing:
  assumes "a \<notin> nodes g"
  shows "partition_loop g (a # as) aggregates = Inl (NodeNotInGraph a)"
  using dfs_postorder_nodes_missing [OF assms] by simp

lemma partition_loop_no_ValueError:
  "graph_ok g \<Longrightarrow> distinct l \<Longrightarrow> sealed g (set l)
    \<Longrightarrow> partition_loop g l aggregates \<noteq> Inl (ValueError x)"
proof (induction g l aggregates rule: partition_loop.induct)
  case (1 g aggregates)
  then show ?case by simp
next
  case (2 g a as aggregates)
  show ?case
  proof (cases "a \<in> nodes g")
    case True
    from partition_loop_step [OF "2.prems" True, of aggregates] obtain ys rest where
      s: "dfs_postorder_nodes g a = (ys, None)" "remove_atoms ys (a # as) = Inr rest"
         "distinct rest" "sealed g (set rest)"
         "partition_loop g (a # as) aggregates = partition_loop g rest (aggregates @ [ys])"
      by blast
    from "2.IH" [OF s(1) [symmetric] s(2) refl "2.prems"(1) s(3,4)] s(5)
    show ?thesis by simp
  next
    case False
    from partition_loop_missing [OF False, of as aggregates]
    show ?thesis by (simp del: partition_loop.simps)
  qed
qed


lemma partition_loop_fails:
  "graph_ok g \<Longrightarrow> distinct l \<Longrightarrow> sealed g (set l) \<Longrightarrow> \<not> set l \<subseteq> nodes g
    \<Longrightarrow> \<exists>b\<in>set l - nodes g. partition_loop g l aggregates = Inl (NodeNotInGraph b)"
proof (induction g l aggregates rule: partition_loop.induct)
  case (1 g aggregates)
  then show ?case by simp
next
  case (2 g a as aggregates)
  show ?case
  proof (cases "a \<in> nodes g")
    case True
    from partition_loop_step [OF "2.prems"(1,2,3) True, of aggregates] obtain ys rest where
      s: "dfs_postorder_nodes g a = (ys, None)" "remove_atoms ys (a # as) = Inr rest"
         "distinct rest" "sealed g (set rest)" "set rest = set (a # as) - reach g a"
         "partition_loop g (a # as) aggregates = partition_loop g rest (aggregates @ [ys])"
      by blast
    from reach_nodes [OF "2.prems"(1) True] s(5) "2.prems"(4)
    have "\<not> set rest \<subseteq> nodes g" by auto
    from "2.IH" [OF s(1) [symmetric] s(2) refl "2.prems"(1) s(3,4) this] s(5,6)
    show ?thesis by auto
  next
    case False
    from partition_loop_missing [OF False, of as aggregates] False
    show ?thesis by (intro bexI [of _ a]) (simp_all del: partition_loop.simps)
  qed
qed

subsection \<open>Results for one frame\<close>

lemma nodes_has_neighbor: "a \<in> nodes (build_graph nl) \<longleftrightarrow> has_neighbor nl a"
  by (auto simp: nodes_build_graph has_neighbor_def split: if_splits)

lemma sealed_build_graph:
  assumes "neighbors_selected atom_indices nl"
  shows "sealed (build_graph nl) (set atom_indices)"
proof -
  have "nodes (build_graph nl) \<subseteq> set atom_indices"
    using assms by (auto simp: nodes_build_graph neighbors_selected_def split: if_splits)
  moreover have "succs (build_graph nl) u \<subseteq> nodes (build_graph nl)" for u
    using graph_ok_build_graph [of nl] by (auto simp: graph_ok_def)
  ultimately show ?thesis unfolding sealed_def by blast
qed

lemma isolated_atom_fails:
  assumes "distinct atom_indices" and "neighbors_selected atom_indices nl"
    and "a \<in> set atom_indices" and "\<not> has_neighbor nl a"
  shows "\<exists>b\<in>set atom_indices. \<not> has_neighbor nl b
           \<and> frame_aggregates atom_indices nl = Inl (NodeNotInGraph b)"
proof -
  from assms(3,4) have "\<not> set atom_indices \<subseteq> nodes (build_graph nl)"
    by (auto simp: nodes_has_neighbor)
  from partition_loop_fails
    [OF graph_ok_build_graph assms(1) sealed_build_graph [OF assms(2)] this, of "[]"]
  show ?thesis by (auto simp: frame_aggregates_def nodes_has_neighbor)
qed


text \<open>
  Claim C10. Under the same two assumptions on a frame (duplicate-free selected indices,
  neighbor lists within the selection), \<open>atom_indices_list.remove(atom)\<close> never raises:
  every atom the traversal yields is still in the list of unassigned indices.
\<close>

theorem remove_never_fails:
  assumes "distinct atom_indices" and "neighbors_selected atom_indices nl"
  shows "frame_aggregates atom_indices nl \<noteq> Inl (ValueError x)"
  unfolding frame_aggregates_def
  by (rule partition_loop_no_ValueError
      [OF graph_ok_build_graph assms(1) sealed_build_graph [OF assms(2)]])

theorem remove_never_fails_witness:
  "distinct [3, 5, 8, 9 :: int]
   \<and> neighbors_selected [3, 5, 8, 9] [(3, [8]), (5, [9]), (8, [3]), (9, [5])]
   \<and> frame_aggregates [3, 5, 8, 9] [(3, [8]), (5, [9]), (8, [3]), (9, [5])] \<noteq> Inl (ValueError 8)"
proof -
  have h1: "distinct [3, 5, 8, 9 :: int]" by simp
  have h2: "neighbors_selected [3, 5, 8, 9] [(3, [8]), (5, [9]), (8, [3]), (9, [5])]"
    by (simp add: neighbors_selected_def)
  from remove_never_fails [OF h1 h2, of 8] h1 h2 show ?thesis by simp
qed

section \<open>The document and the command line: results\<close>

lemma line_neighbors:
  "frame_neighborlists example_env [0, 1, 2] (Some (6 / 5))
     \<lparr>ts_text = k, frame_positions = line_positions, frame_dimensions = [100, 100, 100, 90, 90, 90]\<rparr>
   = Inr [(0, [1]), (1, [0, 2]), (2, [1])]"
  by (simp add: frame_neighborlists_def example_env_def calculate_neighborlists_from_distances_def
      line_positions_def image_distance_def minimum_image_def round_def)

subsection \<open>Keys of the result\<close>

lemma keys_dict_set:
  "map fst (dict_set d k v) = (if k \<in> set (map fst d) then map fst d else map fst d @ [k])"
  by (auto simp: dict_set_def)

lemma first_occurrences_snoc:
  "rev (remdups (rev (ks @ [k])))
     = (if k \<in> set ks then rev (remdups (rev ks)) else rev (remdups (rev ks)) @ [k])"
  by simp

lemma frames_loop_keys:
  "frames_loop E atom_indices r frames data = Inr data' \<Longrightarrow>
     map fst data = rev (remdups (rev ks)) \<Longrightarrow>
     map fst data' = rev (remdups (rev (ks @ map ts_text frames)))"
proof (induction frames arbitrary: data ks)
  case Nil
  then show ?case by simp
next
  case (Cons ts rest)
  from Cons.prems(1) obtain nl aggregates where
    r: "frames_loop E atom_indices r rest (dict_set data (ts_text ts) aggregates) = Inr data'"
    by (auto split: sum.splits)
  have "map fst (dict_set data (ts_text ts) aggregates) = rev (remdups (rev (ks @ [ts_text ts])))"
    unfolding keys_dict_set first_occurrences_snoc using Cons.prems(2) by simp
  from Cons.IH [OF r this] show ?case by simp
qed

lemma frames_loop_returns:
  "\<forall>ts\<in>set frames. \<exists>nl aggregates. frame_neighborlists E atom_indices r ts = Inr nl
      \<and> frame_aggregates atom_indices nl = Inr aggregates
   \<Longrightarrow> \<exists>data'. frames_loop E atom_indices r frames data = Inr data'"
proof (induction frames arbitrary: data)
  case Nil
  then show ?case by simp
next
  case (Cons ts rest)
  from Cons.prems obtain nl aggregates where
    "frame_neighborlists E atom_indices r ts = Inr nl"
    "frame_aggregates atom_indices nl = Inr aggregates"
    by auto
  moreover from Cons.prems
  have "\<exists>data'. frames_loop E atom_indices r rest (dict_set data (ts_text ts) aggregates) = Inr data'"
    by (intro Cons.IH) simp
  ultimately show ?case by simp
qed

text \<open>
  Claim C6. A document that \<open>determine_aggregates\<close> returns is an object with the two
  keys \<open>description\<close> and \<open>data\<close>, in this order. The keys of \<open>data\<close> are the texts of
  the timesteps of the trajectory, each once, in the order in which they were first read;
  when the texts of the frames differ from each other, the keys are the texts of the
  frames, one by one. A document is returned whenever the selection succeeds and the
  neighbor lists and the aggregates of every frame are found.
\<close>

theorem document_shape:
  "(determine_aggregates E u r_neigh selection = Inr document \<longrightarrow>
      (\<exists>description data.
          document = JObject [(''description'', JString description), (''data'', JObject data)]
        \<and> map fst data = rev (remdups (rev (map ts_text (trajectory u))))
        \<and> (distinct (map ts_text (trajectory u)) \<longrightarrow> map fst data = map ts_text (trajectory u))))
   \<and> (selected_atoms E u selection = Inr atom_indices
        \<and> (\<forall>ts\<in>set (trajectory u). \<exists>nl aggregates.
               frame_neighborlists E atom_indices r_neigh ts = Inr nl
             \<and> frame_aggregates atom_indices nl = Inr aggregates)
       \<longrightarrow> (\<exists>document. determine_aggregates E u r_neigh selection = Inr document))"
proof (intro conjI impI)
  assume d: "determine_aggregates E u r_neigh selection = Inr document"
  then obtain atom_indices data where
    l: "frames_loop E atom_indices r_neigh (trajectory u) [] = Inr data"
    and doc: "document = JObject [(''description'', JString (describe E r_neigh selection)),
        (''data'', JObject (map (\<lambda>e. (fst e, json_of_aggregates (snd e))) data))]"
    by (auto simp: determine_aggregates_def split: sum.splits)
  from frames_loop_keys [OF l, of "[]"]
  have k: "map fst data = rev (remdups (rev (map ts_text (trajectory u))))" by simp
  let ?data = "map (\<lambda>e. (fst e, json_of_aggregates (snd e))) data"
  have k': "map fst ?data = rev (remdups (rev (map ts_text (trajectory u))))"
    using k by (simp add: comp_def)
  moreover have "map fst ?data = map ts_text (trajectory u)"
    if "distinct (map ts_text (trajectory u))"
    using that k' by (simp only: distinct_rev [symmetric, of "map ts_text (trajectory u)"]
        distinct_remdups_id rev_rev_ident)
  ultimately show "\<exists>description data.
      document = JObject [(''description'', JString description), (''data'', JObject data)]
    \<and> map fst data = rev (remdups (rev (map ts_text (trajectory u))))
    \<and> (distinct (map ts_text (trajectory u)) \<longrightarrow> map fst data = map ts_text (trajectory u))"
    using doc by blast
next
  assume a: "selected_atoms E u selection = Inr atom_indices
     \<and> (\<forall>ts\<in>set (trajectory u). \<exists>nl aggregates.
            frame_neighborlists E atom_indices r_neigh ts = Inr nl
          \<and> frame_aggregates atom_indices nl = Inr aggregates)"
  then obtain data where "frames_loop E atom_indices r_neigh (trajectory u) [] = Inr data"
    using frames_loop_returns [of "trajectory u" E atom_indices r_neigh "[]"] by blast
  with a show "\<exists>document. determine_aggregates E u r_neigh selection = Inr document"
    by (simp add: determine_aggregates_def)
qed

lemma line_aggregates:
  "frame_aggregates [0, 1, 2] [(0, [1]), (1, [0, 2]), (2, [1])] = Inr [[2, 1, 0]]"
  by (simp add: frame_aggregates_def build_graph_def add_neighbors_def add_edge_def
      add_node_def add_adj_def dfs_postorder_nodes_def)

lemma line_frames:
  "frames_loop example_env [0, 1, 2] (Some (6 / 5)) (trajectory line_universe) []
   = Inr [(''< Timestep 0 >'', [[2, 1, 0]]), (''< Timestep 1 >'', [[2, 1, 0]])]"
  by (simp add: line_universe_def line_neighbors line_aggregates dict_set_def)

lemma line_run:
  "determine_aggregates example_env line_universe (Some 1.2) None
   = Inr (JObject
       [(''description'',
         JString ''Lists of aggregates for a given timestep. Cutoff radius r_neigh =1.2''),
        (''data'',
         JObject [(''< Timestep 0 >'', JList [JList [JInt 2, JInt 1, JInt 0]]),
                  (''< Timestep 1 >'', JList [JList [JInt 2, JInt 1, JInt 0]])])])"
proof -
  have "selected_atoms example_env line_universe None = Inr [0, 1, 2]"
    by (simp add: selected_atoms_def line_universe_def)
  moreover have "describe example_env (Some (6 / 5)) None
      = ''Lists of aggregates for a given timestep. Cutoff radius r_neigh =1.2''"
    by (simp add: describe_def example_env_def example_str_def)
  ultimately show ?thesis
    by (simp add: determine_aggregates_def line_frames json_of_aggregates_def)
qed

text \<open>The run on the three particles on a line, two frames, cutoff 1.2.\<close>

theorem document_shape_witness:
  "\<exists>description data.
      determine_aggregates example_env line_universe (Some 1.2) None
        = Inr (JObject [(''description'', JString description), (''data'', JObject data)])
    \<and> map fst data = [''< Timestep 0 >'', ''< Timestep 1 >'']"
proof -
  let ?document = "JObject
       [(''description'',
         JString ''Lists of aggregates for a given timestep. Cutoff radius r_neigh =1.2''),
        (''data'',
         JObject [(''< Timestep 0 >'', JList [JList [JInt 2, JInt 1, JInt 0]]),
                  (''< Timestep 1 >'', JList [JList [JInt 2, JInt 1, JInt 0]])])]"
  have r: "determine_aggregates example_env line_universe (Some 1.2) None = Inr ?document"
    by (rule line_run)
  have t: "map ts_text (trajectory line_universe) = [''< Timestep 0 >'', ''< Timestep 1 >'']"
    by (simp add: line_universe_def)
  then have d: "distinct (map ts_text (trajectory line_universe))" by simp
  from document_shape [of example_env line_universe "Some 1.2" None ?document] r d
  obtain description data where
    "?document = JObject [(''description'', JString description), (''data'', JObject data)]"
    "map fst data = map ts_text (trajectory line_universe)"
    by blast
  with r t show ?thesis by auto
qed



subsection \<open>The cutoff on the command line\<close>





section \<open>The aggregates of a run: results\<close>

subsection \<open>Atoms that are alone\<close>








subsection \<open>What a run stores under the key of a frame\<close>















section \<open>Configuration generator: results\<close>

subsection \<open>The type token\<close>

lemma rods_not_helices:
  assumes "slice_last 4 t = ''rods''" shows "slice_last 7 t \<noteq> ''helices''"
proof
  assume h: "slice_last 7 t = ''helices''"
  then have "length (drop (length t - 7) t) = 7" by (simp add: slice_last_def)
  then have l: "7 \<le> length t" by simp
  have "drop (length t - 4) t = drop 3 (drop (length t - 7) t)"
    using l by simp
  also have "\<dots> = ''ices''" using h by (simp add: slice_last_def)
  finally show False using assms by (simp add: slice_last_def)
qed

lemma disordered_not_random:
  assumes "slice_to 10 t = ''disordered''" shows "slice_to 6 t \<noteq> ''random''"
proof -
  have "take 6 t = take 6 (take 10 t)" by simp
  also have "\<dots> = ''disord''" using assms by (simp add: slice_to_def)
  finally show ?thesis by (simp add: slice_to_def)
qed

subsection \<open>The chain of one molecule\<close>

lemma build_chain_length: "length (fst (build_chain t np is s)) = length is"
  by (induction "is" arbitrary: s) (auto simp: Let_def)

lemma next_position_np:
  "snd (next_position t np i s) = (if slice_to 6 t = ''random'' then Suc (snd s) else snd s)"
  by (simp add: next_position_def Let_def)

lemma build_chain_np:
  "snd (build_chain t np is s) = snd s + (if slice_to 6 t = ''random'' then length is else 0)"
  by (induction "is" arbitrary: s) (auto simp: Let_def next_position_np)

lemma next_position_rods:
  assumes "slice_last 4 t = ''rods''" and "slice_to 6 t \<noteq> ''random''"
  shows "next_position t np i (p, n) = (vec_add p (0, 0, LBOND), n)"
  using assms rods_not_helices [OF assms(1)] by (simp add: next_position_def)

lemma build_chain_rods:
  assumes "slice_last 4 t = ''rods''" and "slice_to 6 t \<noteq> ''random''"
  shows "fst (build_chain t np is ((x, y, z), n))
       = map (\<lambda>j. (x, y, z + real j * LBOND)) [0..<length is]"
proof (induction "is" arbitrary: z)
  case Nil
  then show ?case by simp
next
  case (Cons i "is")
  have "map (\<lambda>j. (x, y, z + real j * LBOND)) [0..<length (i # is)]
      = (x, y, z) # map (\<lambda>j. (x, y, z + LBOND + real j * LBOND)) [0..<length is]"
    by (simp add: upt_conv_Cons map_Suc_upt [symmetric] algebra_simps del: upt_Suc)
  with Cons [of "z + LBOND"] show ?case
    by (simp add: next_position_rods [OF assms] vec_add_def Let_def)
qed

lemma next_position_helices:
  assumes "slice_last 7 t = ''helices''"
  shows "fst (next_position t np i s) = helix_point (i + 1)"
  using assms by (simp add: next_position_def Let_def)

lemma build_chain_helices:
  assumes "slice_last 7 t = ''helices''"
  shows "fst (build_chain t np [a..<a + k] s) = (if k = 0 then [] else fst s # map helix_point [a + 1..<a + k])"
proof (induction k arbitrary: a s)
  case 0
  then show ?case by simp
next
  case (Suc k)
  have "[a..<a + Suc k] = a # [Suc a..<Suc a + k]" by (simp add: upt_conv_Cons)
  moreover have "k \<noteq> 0 \<Longrightarrow> [Suc a..<Suc (a + k)] = Suc a # [Suc (Suc a)..<Suc (a + k)]"
    by (simp add: upt_conv_Cons)
  ultimately show ?case
    using Suc [of "Suc a" "next_position t np a s"]
    by (simp add: Let_def next_position_helices [OF assms] del: upt_Suc)
qed

subsection \<open>The loop over the molecules\<close>

lemma make_molecule_shared:
  assumes "slice_to 10 t \<noteq> ''disordered''" and "molecule_rotation s = Some r"
  shows "\<exists>m s'. make_molecule t py np imol s = Inr (m, s')
           \<and> molecule_rotation s' = Some r \<and> rotation m = r
           \<and> local_positions m = fst (build_chain t np [0..<NPOLY] ((0, 0, 0), np_n s))
           \<and> positions m = map (\<lambda>p. vec_add (rotation_apply r p) (translation_vector m))
                               (local_positions m)
           \<and> translation_vector m
               = (CELL ! 0 * py (py_n s), CELL ! 1 * py (py_n s + 1), CELL ! 2 * py (py_n s + 2))"
  using assms by (simp add: make_molecule_def Let_def)

lemma make_molecule_own:
  assumes "slice_to 10 t = ''disordered''"
  shows "\<exists>m s'. make_molecule t py np imol s = Inr (m, s')
           \<and> np_n s' = Suc (np_n s) \<and> rotation m = np (np_n s)
           \<and> local_positions m = fst (build_chain t np [0..<NPOLY] ((0, 0, 0), np_n s))"
  using assms disordered_not_random [OF assms]
  by (simp add: make_molecule_def Let_def build_chain_np)

lemma molecules_loop_shared:
  assumes "slice_to 10 t \<noteq> ''disordered''"
  shows "molecule_rotation s = Some r \<Longrightarrow>
         \<exists>ms. molecules_loop t py np imols s = Inr ms \<and> length ms = length imols
            \<and> (\<forall>m\<in>set ms. rotation m = r
                  \<and> (\<exists>n. local_positions m = fst (build_chain t np [0..<NPOLY] ((0, 0, 0), n))))"
proof (induction imols arbitrary: s)
  case Nil
  then show ?case by simp
next
  case (Cons imol imols)
  from make_molecule_shared [OF assms Cons.prems, of py np imol] obtain m s' where
    m: "make_molecule t py np imol s = Inr (m, s')" "molecule_rotation s' = Some r"
       "rotation m = r"
       "local_positions m = fst (build_chain t np [0..<NPOLY] ((0, 0, 0), np_n s))"
    by blast
  from Cons.IH [OF m(2)] obtain ms where
    ms: "molecules_loop t py np imols s' = Inr ms" "length ms = length imols"
        "\<forall>m\<in>set ms. rotation m = r
           \<and> (\<exists>n. local_positions m = fst (build_chain t np [0..<NPOLY] ((0, 0, 0), n)))"
    by blast
  have "molecules_loop t py np (imol # imols) s = Inr (m # ms)"
    using m(1) ms(1) by simp
  moreover have "\<forall>m\<in>set (m # ms). rotation m = r
       \<and> (\<exists>n. local_positions m = fst (build_chain t np [0..<NPOLY] ((0, 0, 0), n)))"
    using m(3,4) ms(3) by auto
  ultimately show ?case using ms(2) by auto
qed

lemma molecules_loop_own:
  assumes "slice_to 10 t = ''disordered''"
  shows "\<exists>ms. molecules_loop t py np imols s = Inr ms \<and> length ms = length imols
            \<and> (\<forall>k<length imols. rotation (ms ! k) = np (np_n s + k))
            \<and> (\<forall>m\<in>set ms.
                  \<exists>n. local_positions m = fst (build_chain t np [0..<NPOLY] ((0, 0, 0), n)))"
proof (induction imols arbitrary: s)
  case Nil
  then show ?case by simp
next
  case (Cons imol imols)
  from make_molecule_own [OF assms, of py np imol s] obtain m s' where
    m: "make_molecule t py np imol s = Inr (m, s')" "np_n s' = Suc (np_n s)"
       "rotation m = np (np_n s)"
       "local_positions m = fst (build_chain t np [0..<NPOLY] ((0, 0, 0), np_n s))"
    by blast
  from Cons.IH [of s'] obtain ms where
    ms: "molecules_loop t py np imols s' = Inr ms" "length ms = length imols"
        "\<forall>k<length imols. rotation (ms ! k) = np (np_n s' + k)"
        "\<forall>m\<in>set ms. \<exists>n. local_positions m = fst (build_chain t np [0..<NPOLY] ((0, 0, 0), n))"
    by blast
  have r: "molecules_loop t py np (imol # imols) s = Inr (m # ms)"
    using m(1) ms(1) by simp
  have "rotation ((m # ms) ! k) = np (np_n s + k)" if "k < length (imol # imols)" for k
  proof (cases k)
    case 0
    then show ?thesis using m(3) by simp
  next
    case (Suc j)
    with that ms(3) m(2) show ?thesis by simp
  qed
  moreover have "\<forall>m\<in>set (m # ms).
      \<exists>n. local_positions m = fst (build_chain t np [0..<NPOLY] ((0, 0, 0), n))"
    using m(4) ms(4) by auto
  ultimately show ?case using r ms(2) by auto
qed

lemma main_molecules_chains:
  "\<exists>ms. main_molecules py_random np t = Inr ms \<and> length ms = NMOL
     \<and> (\<forall>m\<in>set ms. \<exists>n. local_positions m = fst (build_chain t np [0..<NPOLY] ((0, 0, 0), n)))"
proof (cases "slice_to 10 t = ''disordered''")
  case True
  from molecules_loop_own [OF True, of "py_random RANDOM_SEED" np "[0..<NMOL]"
      "\<lparr>ix = 0, np_n = 0, py_n = 0, molecule_rotation = None\<rparr>"] True
  show ?thesis by (auto simp: main_molecules_def)
next
  case False
  from molecules_loop_shared [OF False, of
      "\<lparr>ix = 0, np_n = 1, py_n = 0, molecule_rotation = Some (np 0)\<rparr>" "np 0"
      "py_random RANDOM_SEED" np "[0..<NMOL]"] False
  show ?thesis by (auto simp: main_molecules_def)
qed

lemma radial_helix_point: "radial (helix_point j) = RTUBE"
proof -
  have "(RTUBE * cos a)\<^sup>2 + (RTUBE * sin a)\<^sup>2 = RTUBE\<^sup>2" for a :: real
    by (simp add: power_mult_distrib distrib_left [symmetric])
  then show ?thesis by (simp add: radial_def helix_point_def RTUBE_def)
qed

text \<open>
  Claim C4, as the code has it. For a type token that ends in \<open>helices\<close>, the first
  particle of a molecule is at the local origin, and particle \<open>i\<close>, for \<open>i\<close> from 1 to 19,
  is at \<open>x = RTUBE * cos(2 * pi * i / PER_TURN)\<close>, \<open>y = RTUBE * sin(2 * pi * i / PER_TURN)\<close>,
  \<open>z = PITCH * i / PER_TURN\<close> before the molecule is rotated and translated: the formula
  is evaluated at \<open>iatom + 1\<close> in the pass of the atom before. So the particles 1 to 19 are
  at distance 0.53 from the axis. Every one of the 4000 molecules has such a chain.
\<close>

theorem helix_chain:
  assumes "slice_last 7 t = ''helices''"
  shows "(\<forall>n. fst (build_chain t np [0..<NPOLY] ((0, 0, 0), n)) ! 0 = (0, 0, 0)
           \<and> (\<forall>i. 1 \<le> i \<and> i < NPOLY \<longrightarrow>
                 fst (build_chain t np [0..<NPOLY] ((0, 0, 0), n)) ! i
                   = (RTUBE * cos (real i * 2 * pi / PER_TURN),
                      RTUBE * sin (real i * 2 * pi / PER_TURN),
                      PITCH * real i / PER_TURN)
               \<and> radial (fst (build_chain t np [0..<NPOLY] ((0, 0, 0), n)) ! i) = 0.53))
       \<and> (\<exists>ms. main_molecules py_random np t = Inr ms \<and> length ms = NMOL
             \<and> (\<forall>m\<in>set ms. \<exists>n. local_positions m
                     = fst (build_chain t np [0..<NPOLY] ((0, 0, 0), n))))"
proof (intro conjI allI impI)
  fix n
  have c: "fst (build_chain t np [0..<NPOLY] ((0, 0, 0), n))
         = (0, 0, 0) # map helix_point [1..<NPOLY]"
    using build_chain_helices [OF assms, of np 0 NPOLY "((0, 0, 0), n)"]
    by (simp add: NPOLY_def)
  show "fst (build_chain t np [0..<NPOLY] ((0, 0, 0), n)) ! 0 = (0, 0, 0)"
    by (simp add: c)
  fix i assume i: "1 \<le> i \<and> i < NPOLY"
  then obtain j where j: "i = Suc j" "j < NPOLY - 1" by (cases i) auto
  then have n: "fst (build_chain t np [0..<NPOLY] ((0, 0, 0), n)) ! i = helix_point i"
    by (simp add: c)
  then show "fst (build_chain t np [0..<NPOLY] ((0, 0, 0), n)) ! i
      = (RTUBE * cos (real i * 2 * pi / PER_TURN),
         RTUBE * sin (real i * 2 * pi / PER_TURN),
         PITCH * real i / PER_TURN)"
    by (simp add: helix_point_def)
  show "radial (fst (build_chain t np [0..<NPOLY] ((0, 0, 0), n)) ! i) = 0.53"
    by (simp add: n radial_helix_point RTUBE_def)
next
  show "\<exists>ms. main_molecules py_random np t = Inr ms \<and> length ms = NMOL
      \<and> (\<forall>m\<in>set ms. \<exists>n. local_positions m
            = fst (build_chain t np [0..<NPOLY] ((0, 0, 0), n)))"
    by (rule main_molecules_chains)
qed

text \<open>The third particle of a chain for the token \<open>disordered-helices\<close>.\<close>

theorem helix_chain_witness:
  "fst (build_chain ''disordered-helices'' (\<lambda>n. if even n then rot_id else rot_x90)
          [0..<NPOLY] ((0, 0, 0), 0)) ! 2
     = (RTUBE * cos (real 2 * 2 * pi / PER_TURN), RTUBE * sin (real 2 * 2 * pi / PER_TURN),
        PITCH * real 2 / PER_TURN)
   \<and> radial (fst (build_chain ''disordered-helices'' (\<lambda>n. if even n then rot_id else rot_x90)
          [0..<NPOLY] ((0, 0, 0), 0)) ! 2) = 0.53"
proof -
  have h: "slice_last 7 ''disordered-helices'' = ''helices''" by (simp add: slice_last_def)
  have i: "1 \<le> (2::nat) \<and> 2 < NPOLY" by (simp add: NPOLY_def)
  let ?np = "\<lambda>n::nat. if even n then rot_id else rot_x90"
  from helix_chain [OF h, of ?np]
  have "\<forall>i. 1 \<le> i \<and> i < NPOLY \<longrightarrow>
          fst (build_chain ''disordered-helices'' ?np [0..<NPOLY] ((0, 0, 0), 0)) ! i
            = (RTUBE * cos (real i * 2 * pi / PER_TURN),
               RTUBE * sin (real i * 2 * pi / PER_TURN),
               PITCH * real i / PER_TURN)
        \<and> radial (fst (build_chain ''disordered-helices'' ?np [0..<NPOLY] ((0, 0, 0), 0)) ! i)
            = 0.53"
    by blast
  from this [rule_format, OF i] show ?thesis .
qed

text \<open>
  The claim fails for the token \<open>helices\<close>. Particle 0 is at the origin, not at the
  point the formula gives for \<open>i + 1 = 1\<close>, and its distance from the axis is 0.
  Particle 1 is at the point of the formula for 1, not for \<open>i + 1 = 2\<close>.
\<close>

theorem helix_first_particle_counterexample:
  "slice_last 7 ''helices'' = ''helices''
   \<and> fst (build_chain ''helices'' (\<lambda>n. rot_id) [0..<NPOLY] ((0, 0, 0), 1)) ! 0
       \<noteq> (RTUBE * cos (2 * pi * (0 + 1) / PER_TURN),
           RTUBE * sin (2 * pi * (0 + 1) / PER_TURN),
           PITCH * (0 + 1) / PER_TURN)
   \<and> radial (fst (build_chain ''helices'' (\<lambda>n. rot_id) [0..<NPOLY] ((0, 0, 0), 1)) ! 0) \<noteq> 0.53
   \<and> fst (build_chain ''helices'' (\<lambda>n. rot_id) [0..<NPOLY] ((0, 0, 0), 1)) ! 1
       \<noteq> (RTUBE * cos (2 * pi * (1 + 1) / PER_TURN),
           RTUBE * sin (2 * pi * (1 + 1) / PER_TURN),
           PITCH * (1 + 1) / PER_TURN)"
proof -
  have h: "slice_last 7 ''helices'' = ''helices''" by (simp add: slice_last_def)
  have c: "fst (build_chain ''helices'' (\<lambda>n. rot_id) [0..<NPOLY] ((0, 0, 0), 1))
         = (0, 0, 0) # map helix_point [1..<NPOLY]"
    using build_chain_helices [OF h, of "\<lambda>n. rot_id" 0 NPOLY "((0, 0, 0), 1)"]
    by (simp add: NPOLY_def)
  have c0: "fst (build_chain ''helices'' (\<lambda>n. rot_id) [0..<NPOLY] ((0, 0, 0), 1)) ! 0 = (0, 0, 0)"
    unfolding c by simp
  have "[1..<NPOLY] ! 0 = 1" "0 < length [1..<NPOLY]" by (simp_all add: NPOLY_def)
  then have c1: "fst (build_chain ''helices'' (\<lambda>n. rot_id) [0..<NPOLY] ((0, 0, 0), 1)) ! 1
         = helix_point 1"
    unfolding c by (simp del: upt_Suc)
  have z0: "PITCH * (0 + 1) / PER_TURN \<noteq> 0" by (simp add: PITCH_def PER_TURN_def)
  have z1: "PITCH * real 1 / PER_TURN \<noteq> PITCH * (1 + 1) / PER_TURN"
    by (simp add: PITCH_def PER_TURN_def)
  from z1 have "helix_point 1 \<noteq> (RTUBE * cos (2 * pi * (1 + 1) / PER_TURN),
           RTUBE * sin (2 * pi * (1 + 1) / PER_TURN), PITCH * (1 + 1) / PER_TURN)"
    by (simp add: helix_point_def)
  with h c0 c1 z0 show ?thesis by (simp add: radial_def)
qed

text \<open>
  Claim C8, as the code has it. For a type token that ends in \<open>rods\<close> and does not
  start with \<open>random\<close>, particle \<open>i\<close> of a molecule is at \<open>(0, 0, i)\<close> before the molecule
  is rotated and translated, every bond vector is \<open>(0, 0, 1)\<close>, and the last particle is
  at \<open>(0, 0, 19)\<close> from the first. Every one of the 4000 molecules has such a chain.
\<close>

theorem rod_chain:
  assumes "slice_last 4 t = ''rods''" and "slice_to 6 t \<noteq> ''random''"
  shows "(\<forall>n. (\<forall>i<NPOLY. fst (build_chain t np [0..<NPOLY] ((0, 0, 0), n)) ! i = (0, 0, real i))
           \<and> (\<forall>i. Suc i < NPOLY \<longrightarrow>
                 vec_sub (fst (build_chain t np [0..<NPOLY] ((0, 0, 0), n)) ! Suc i)
                         (fst (build_chain t np [0..<NPOLY] ((0, 0, 0), n)) ! i) = (0, 0, 1))
           \<and> vec_sub (fst (build_chain t np [0..<NPOLY] ((0, 0, 0), n)) ! (NPOLY - 1))
                     (fst (build_chain t np [0..<NPOLY] ((0, 0, 0), n)) ! 0) = (0, 0, 19))
       \<and> (\<exists>ms. main_molecules py_random np t = Inr ms \<and> length ms = NMOL
             \<and> (\<forall>m\<in>set ms. \<exists>n. local_positions m
                     = fst (build_chain t np [0..<NPOLY] ((0, 0, 0), n))))"
proof (intro conjI allI impI)
  fix n
  have c: "fst (build_chain t np [0..<NPOLY] ((0, 0, 0), n))
         = map (\<lambda>j. (0, 0, real j)) [0..<NPOLY]"
    using build_chain_rods [OF assms, of np "[0..<NPOLY]" 0 0 0 n]
    by (simp add: LBOND_def)
  show "fst (build_chain t np [0..<NPOLY] ((0, 0, 0), n)) ! i = (0, 0, real i)"
    if "i < NPOLY" for i
    using that by (simp add: c)
  show "vec_sub (fst (build_chain t np [0..<NPOLY] ((0, 0, 0), n)) ! Suc i)
                (fst (build_chain t np [0..<NPOLY] ((0, 0, 0), n)) ! i) = (0, 0, 1)"
    if "Suc i < NPOLY" for i
    using that by (simp add: c vec_sub_def)
  show "vec_sub (fst (build_chain t np [0..<NPOLY] ((0, 0, 0), n)) ! (NPOLY - 1))
                (fst (build_chain t np [0..<NPOLY] ((0, 0, 0), n)) ! 0) = (0, 0, 19)"
  proof -
    have l: "0 < NPOLY" "NPOLY - 1 < NPOLY" "real (NPOLY - 1) = 19" by (simp_all add: NPOLY_def)
    have "fst (build_chain t np [0..<NPOLY] ((0, 0, 0), n)) ! (NPOLY - 1) = (0, 0, 19)"
      unfolding c using l by simp
    moreover have "fst (build_chain t np [0..<NPOLY] ((0, 0, 0), n)) ! 0 = (0, 0, 0)"
      unfolding c using l by simp
    ultimately show ?thesis by (simp add: vec_sub_def)
  qed
next
  show "\<exists>ms. main_molecules py_random np t = Inr ms \<and> length ms = NMOL
      \<and> (\<forall>m\<in>set ms. \<exists>n. local_positions m
            = fst (build_chain t np [0..<NPOLY] ((0, 0, 0), n)))"
    by (rule main_molecules_chains)
qed

text \<open>The sixth particle and the sixth bond of a chain for the token \<open>disordered-rods\<close>.\<close>

theorem rod_chain_witness:
  "fst (build_chain ''disordered-rods'' (\<lambda>n. rot_x90) [0..<NPOLY] ((0, 0, 0), 7)) ! 5
     = (0, 0, real 5)
   \<and> vec_sub (fst (build_chain ''disordered-rods'' (\<lambda>n. rot_x90) [0..<NPOLY] ((0, 0, 0), 7)) ! Suc 5)
             (fst (build_chain ''disordered-rods'' (\<lambda>n. rot_x90) [0..<NPOLY] ((0, 0, 0), 7)) ! 5)
       = (0, 0, 1)"
proof -
  have h1: "slice_last 4 ''disordered-rods'' = ''rods''" by (simp add: slice_last_def)
  have h2: "slice_to 6 ''disordered-rods'' \<noteq> ''random''" by (simp add: slice_to_def)
  have i: "5 < NPOLY" "Suc 5 < NPOLY" by (simp_all add: NPOLY_def)
  from rod_chain [OF h1 h2, of "\<lambda>n. rot_x90"] i show ?thesis by blast
qed

text \<open>
  The claim fails for the token \<open>random-rods\<close>, which ends in \<open>rods\<close> and starts with
  \<open>random\<close>: both tests succeed, and the first bond vector is the rotated bond plus
  \<open>(0, 0, 1)\<close>. Here every drawn rotation is the quarter turn about the x axis.
\<close>

theorem random_rods_counterexample:
  "slice_last 4 ''random-rods'' = ''rods''
   \<and> fst (build_chain ''random-rods'' (\<lambda>n. rot_x90) [0..<NPOLY] ((0, 0, 0), 1)) ! 1 \<noteq> (0, 0, 1)
   \<and> vec_sub (fst (build_chain ''random-rods'' (\<lambda>n. rot_x90) [0..<NPOLY] ((0, 0, 0), 1)) ! 1)
             (fst (build_chain ''random-rods'' (\<lambda>n. rot_x90) [0..<NPOLY] ((0, 0, 0), 1)) ! 0)
       = (0, -1, 1)"
proof -
  have "[0..<NPOLY] = 0 # 1 # [2..<NPOLY]" by (simp add: NPOLY_def upt_conv_Cons)
  then show ?thesis
    by (simp add: next_position_def slice_to_def slice_last_def Let_def rot_x90_def
        rotation_apply_def dot_def vec_add_def vec_sub_def LBOND_def)
qed

lemma concat_nth_uniform:
  "\<forall>x\<in>set xss. length x = n \<Longrightarrow> k < length xss \<Longrightarrow> i < n
     \<Longrightarrow> concat xss ! (k * n + i) = xss ! k ! i"
proof (induction xss arbitrary: k)
  case Nil
  then show ?case by simp
next
  case (Cons x xss)
  show ?case
  proof (cases k)
    case 0
    with Cons.prems show ?thesis by (simp add: nth_append)
  next
    case (Suc j)
    with Cons.prems have "concat xss ! (j * n + i) = xss ! j ! i"
      by (intro Cons.IH) auto
    moreover have "Suc j * n + i = length x + (j * n + i)" using Cons.prems(1) by simp
    ultimately show ?thesis using Suc by (simp only: concat.simps nth_append_length_plus nth_Cons_Suc)
  qed
qed

lemma length_concat_uniform:
  "\<forall>x\<in>set xss. length x = n \<Longrightarrow> length (concat xss) = length xss * n"
  by (induction xss) auto

lemma make_molecule_exact:
  assumes "slice_to 10 t = ''disordered'' \<or> molecule_rotation s = Some r"
  shows "\<exists>m s'. make_molecule t py np imol s = Inr (m, s')
           \<and> (slice_to 10 t = ''disordered'' \<or> molecule_rotation s' = Some r)
           \<and> np_n s' = np_n s + molecule_draws t \<and> py_n s' = py_n s + 3
           \<and> rotation m = (if slice_to 10 t = ''disordered''
                            then np (np_n s + chain_draws t) else r)
           \<and> local_positions m = fst (build_chain t np [0..<NPOLY] ((0, 0, 0), np_n s))
           \<and> translation_vector m
               = (CELL ! 0 * py (py_n s), CELL ! 1 * py (py_n s + 1), CELL ! 2 * py (py_n s + 2))
           \<and> positions m = map (\<lambda>p. vec_add (rotation_apply (rotation m) p) (translation_vector m))
                               (local_positions m)"
  using assms
  by (auto simp: make_molecule_def Let_def build_chain_np molecule_draws_def chain_draws_def)

lemma molecules_loop_exact:
  assumes "slice_to 10 t = ''disordered'' \<or> molecule_rotation s = Some r"
  shows "\<exists>ms. molecules_loop t py np imols s = Inr ms \<and> length ms = length imols
     \<and> (\<forall>k<length imols.
           local_positions (ms ! k)
             = fst (build_chain t np [0..<NPOLY] ((0, 0, 0), np_n s + k * molecule_draws t))
         \<and> rotation (ms ! k)
             = (if slice_to 10 t = ''disordered''
                then np (np_n s + k * molecule_draws t + chain_draws t) else r)
         \<and> translation_vector (ms ! k)
             = (CELL ! 0 * py (py_n s + 3 * k), CELL ! 1 * py (py_n s + 3 * k + 1),
                CELL ! 2 * py (py_n s + 3 * k + 2))
         \<and> positions (ms ! k)
             = map (\<lambda>p. vec_add (rotation_apply (rotation (ms ! k)) p)
                          (translation_vector (ms ! k)))
                 (local_positions (ms ! k)))"
  using assms
proof (induction imols arbitrary: s)
  case Nil
  then show ?case by simp
next
  case (Cons imol imols)
  from make_molecule_exact [OF Cons.prems, of py np imol] obtain m s' where
    m: "make_molecule t py np imol s = Inr (m, s')"
       "slice_to 10 t = ''disordered'' \<or> molecule_rotation s' = Some r"
       "np_n s' = np_n s + molecule_draws t" "py_n s' = py_n s + 3"
       "rotation m = (if slice_to 10 t = ''disordered''
                      then np (np_n s + chain_draws t) else r)"
       "local_positions m = fst (build_chain t np [0..<NPOLY] ((0, 0, 0), np_n s))"
       "translation_vector m
          = (CELL ! 0 * py (py_n s), CELL ! 1 * py (py_n s + 1), CELL ! 2 * py (py_n s + 2))"
       "positions m = map (\<lambda>p. vec_add (rotation_apply (rotation m) p) (translation_vector m))
                               (local_positions m)"
    by (elim exE conjE) (rule that, assumption+)
  from Cons.IH [OF m(2)] obtain ms where
    ms: "molecules_loop t py np imols s' = Inr ms" "length ms = length imols"
    and rest: "\<And>k. k < length imols \<Longrightarrow>
           local_positions (ms ! k)
             = fst (build_chain t np [0..<NPOLY] ((0, 0, 0), np_n s' + k * molecule_draws t))
         \<and> rotation (ms ! k)
             = (if slice_to 10 t = ''disordered''
                then np (np_n s' + k * molecule_draws t + chain_draws t) else r)
         \<and> translation_vector (ms ! k)
             = (CELL ! 0 * py (py_n s' + 3 * k), CELL ! 1 * py (py_n s' + 3 * k + 1),
                CELL ! 2 * py (py_n s' + 3 * k + 2))
         \<and> positions (ms ! k)
             = map (\<lambda>p. vec_add (rotation_apply (rotation (ms ! k)) p)
                          (translation_vector (ms ! k)))
                 (local_positions (ms ! k))"
    by (elim exE conjE) (rule that, assumption+, blast)
  have r: "molecules_loop t py np (imol # imols) s = Inr (m # ms)"
    using m(1) ms(1) by simp
  have "local_positions ((m # ms) ! k)
             = fst (build_chain t np [0..<NPOLY] ((0, 0, 0), np_n s + k * molecule_draws t))
         \<and> rotation ((m # ms) ! k)
             = (if slice_to 10 t = ''disordered''
                then np (np_n s + k * molecule_draws t + chain_draws t) else r)
         \<and> translation_vector ((m # ms) ! k)
             = (CELL ! 0 * py (py_n s + 3 * k), CELL ! 1 * py (py_n s + 3 * k + 1),
                CELL ! 2 * py (py_n s + 3 * k + 2))
         \<and> positions ((m # ms) ! k)
             = map (\<lambda>p. vec_add (rotation_apply (rotation ((m # ms) ! k)) p)
                          (translation_vector ((m # ms) ! k)))
                 (local_positions ((m # ms) ! k))"
    if k: "k < length (imol # imols)" for k
  proof (cases k)
    case 0
    then show ?thesis using m(5,6,7,8) by simp
  next
    case (Suc j)
    with k have j: "j < length imols" by simp
    have e: "np_n s' + j * molecule_draws t = np_n s + Suc j * molecule_draws t"
      "py_n s' + 3 * j = py_n s + 3 * Suc j"
      using m(3,4) by simp_all
    from rest [OF j] show ?thesis unfolding Suc nth_Cons_Suc e .
  qed
  with r ms(2) show ?case by (intro exI [of _ "m # ms"]) simp
qed


lemma main_molecules_exact:
  "\<exists>ms. main_molecules py_random np t = Inr ms \<and> length ms = NMOL
     \<and> (\<forall>k<NMOL.
           local_positions (ms ! k)
             = fst (build_chain t np [0..<NPOLY] ((0, 0, 0), chain_start t k))
         \<and> rotation (ms ! k) = (if slice_to 10 t = ''disordered'' then np k else np 0)
         \<and> translation_vector (ms ! k)
             = (CELL ! 0 * py_random RANDOM_SEED (3 * k),
                CELL ! 1 * py_random RANDOM_SEED (3 * k + 1),
                CELL ! 2 * py_random RANDOM_SEED (3 * k + 2))
         \<and> positions (ms ! k)
             = map (\<lambda>p. vec_add (rotation_apply (rotation (ms ! k)) p)
                          (translation_vector (ms ! k)))
                 (local_positions (ms ! k)))"
proof (cases "slice_to 10 t = ''disordered''")
  case True
  let ?s = "\<lparr>ix = 0, np_n = 0, py_n = 0, molecule_rotation = None\<rparr>"
  have d: "chain_draws t = 0" "molecule_draws t = 1"
    using True disordered_not_random [OF True] by (simp_all add: chain_draws_def molecule_draws_def)
  have s: "slice_to 10 t = ''disordered'' \<or> molecule_rotation ?s = Some (np 0)"
    using True by simp
  from True d show ?thesis
    using molecules_loop_exact [OF s, of "py_random RANDOM_SEED" np "[0..<NMOL]"]
    by (simp add: main_molecules_def chain_start_def)
next
  case False
  let ?s = "\<lparr>ix = 0, np_n = 1, py_n = 0, molecule_rotation = Some (np 0)\<rparr>"
  have d: "molecule_draws t = chain_draws t"
    using False by (simp add: molecule_draws_def)
  have s: "slice_to 10 t = ''disordered'' \<or> molecule_rotation ?s = Some (np 0)"
    by simp
  from False d show ?thesis
    using molecules_loop_exact [OF s, of "py_random RANDOM_SEED" np "[0..<NMOL]"]
    by (simp add: main_molecules_def chain_start_def)
qed

text \<open>
  Claim C7. The generator always returns its configuration of 4000 molecules of 20
  atoms. When the type token does not start with \<open>disordered\<close>, the rotation of every
  molecule is the first rotation drawn, the one drawn before the loop over the molecules.
  When the token starts with \<open>disordered\<close>, molecule \<open>k\<close> has the rotation of draw
  \<open>k\<close>: a draw of its own, made inside the loop. The rotation is applied to the
  molecule: the chain of molecule \<open>k\<close> has 20 atoms, it is the chain built from the
  draws that follow those of the molecules before, and atom \<open>i\<close> of the molecule is
  written at index \<open>20 * k + i\<close> of the positions as the rotation of the molecule applied
  to the atom's place in the chain, moved by the translation of the molecule, which is
  the box scaled by the draws \<open>3 * k\<close>, \<open>3 * k + 1\<close> and \<open>3 * k + 2\<close> of the seeded
  generator.
\<close>

theorem rotation_per_molecule:
  "\<exists>ms. main_molecules py_random np t = Inr ms \<and> length ms = NMOL
     \<and> (\<forall>m\<in>set ms. positions m
           = map (\<lambda>p. vec_add (rotation_apply (rotation m) p) (translation_vector m))
               (local_positions m))
     \<and> (slice_to 10 t \<noteq> ''disordered'' \<longrightarrow> (\<forall>k<NMOL. rotation (ms ! k) = np 0))
     \<and> (slice_to 10 t = ''disordered'' \<longrightarrow> (\<forall>k<NMOL. rotation (ms ! k) = np k))
     \<and> main py_random np t = Inr (assemble ms)
     \<and> length (atom_positions (assemble ms)) = NMOL * NPOLY
     \<and> (\<forall>k<NMOL.
           local_positions (ms ! k)
             = fst (build_chain t np [0..<NPOLY] ((0, 0, 0), chain_start t k))
         \<and> length (local_positions (ms ! k)) = NPOLY
         \<and> translation_vector (ms ! k)
             = (CELL ! 0 * py_random RANDOM_SEED (3 * k),
                CELL ! 1 * py_random RANDOM_SEED (3 * k + 1),
                CELL ! 2 * py_random RANDOM_SEED (3 * k + 2))
         \<and> (\<forall>i<NPOLY.
               atom_positions (assemble ms) ! (k * NPOLY + i)
                 = vec_add (rotation_apply (rotation (ms ! k)) (local_positions (ms ! k) ! i))
                     (translation_vector (ms ! k))))"
proof -
  from main_molecules_exact [of py_random np t] obtain ms where
    r: "main_molecules py_random np t = Inr ms" and n: "length ms = NMOL"
    and each: "\<And>k. k < NMOL \<Longrightarrow>
           local_positions (ms ! k)
             = fst (build_chain t np [0..<NPOLY] ((0, 0, 0), chain_start t k))
         \<and> rotation (ms ! k) = (if slice_to 10 t = ''disordered'' then np k else np 0)
         \<and> translation_vector (ms ! k)
             = (CELL ! 0 * py_random RANDOM_SEED (3 * k),
                CELL ! 1 * py_random RANDOM_SEED (3 * k + 1),
                CELL ! 2 * py_random RANDOM_SEED (3 * k + 2))
         \<and> positions (ms ! k)
             = map (\<lambda>p. vec_add (rotation_apply (rotation (ms ! k)) p)
                          (translation_vector (ms ! k)))
                 (local_positions (ms ! k))"
    by (elim exE conjE) (rule that, assumption+, blast)
  have lp: "length (local_positions (ms ! k)) = NPOLY" if "k < NMOL" for k
    using each [OF that] by (simp add: build_chain_length)
  have pos: "positions m
      = map (\<lambda>p. vec_add (rotation_apply (rotation m) p) (translation_vector m))
          (local_positions m)" if "m \<in> set ms" for m
  proof -
    from that n obtain k where "k < NMOL" "m = ms ! k" by (auto simp: in_set_conv_nth)
    with each [of k] show ?thesis by simp
  qed
  have len: "\<forall>x\<in>set (map positions ms). length x = NPOLY"
  proof
    fix x assume "x \<in> set (map positions ms)"
    then obtain k where k: "k < NMOL" "x = positions (ms ! k)"
      using n by (auto simp: in_set_conv_nth)
    with each [of k] lp [of k] show "length x = NPOLY" by simp
  qed
  have m: "main py_random np t = Inr (assemble ms)" using r by (simp add: main_def)
  have total: "length (atom_positions (assemble ms)) = NMOL * NPOLY"
    using length_concat_uniform [OF len] n by (simp add: assemble_def)
  have atom: "atom_positions (assemble ms) ! (k * NPOLY + i)
      = vec_add (rotation_apply (rotation (ms ! k)) (local_positions (ms ! k) ! i))
          (translation_vector (ms ! k))" if k: "k < NMOL" and i: "i < NPOLY" for k i
  proof -
    have "atom_positions (assemble ms) ! (k * NPOLY + i) = map positions ms ! k ! i"
      using concat_nth_uniform [OF len, of k i] k i n by (simp add: assemble_def)
    also have "\<dots> = positions (ms ! k) ! i" using k n by simp
    also have "\<dots> = vec_add (rotation_apply (rotation (ms ! k)) (local_positions (ms ! k) ! i))
          (translation_vector (ms ! k))"
      using each [OF k] lp [OF k] i by simp
    finally show ?thesis .
  qed
  have shared: "\<forall>k<NMOL. rotation (ms ! k) = np 0" if "slice_to 10 t \<noteq> ''disordered''"
    using each that by simp
  have own: "\<forall>k<NMOL. rotation (ms ! k) = np k" if "slice_to 10 t = ''disordered''"
    using each that by simp
  have every: "\<forall>k<NMOL.
           local_positions (ms ! k)
             = fst (build_chain t np [0..<NPOLY] ((0, 0, 0), chain_start t k))
         \<and> length (local_positions (ms ! k)) = NPOLY
         \<and> translation_vector (ms ! k)
             = (CELL ! 0 * py_random RANDOM_SEED (3 * k),
                CELL ! 1 * py_random RANDOM_SEED (3 * k + 1),
                CELL ! 2 * py_random RANDOM_SEED (3 * k + 2))
         \<and> (\<forall>i<NPOLY.
               atom_positions (assemble ms) ! (k * NPOLY + i)
                 = vec_add (rotation_apply (rotation (ms ! k)) (local_positions (ms ! k) ! i))
                     (translation_vector (ms ! k)))"
    using each lp atom by simp
  show ?thesis
    by (rule exI [of _ ms]) (intro conjI r n ballI pos impI shared own m total every)
qed

text \<open>
  The tokens \<open>rods\<close> and \<open>disordered-rods\<close> with rotations that alternate between the
  identity and the quarter turn: the rotations of the first, the second and the last
  molecule, and the written position of the third atom of the second molecule.
\<close>

theorem rotation_per_molecule_witness:
  "(\<exists>ms. main (\<lambda>seed n. 1 / real (n + 2)) (\<lambda>n. if even n then rot_id else rot_x90)
            ''rods'' = Inr (assemble ms)
        \<and> length (atom_positions (assemble ms)) = 80000
        \<and> rotation (ms ! 0) = rot_id \<and> rotation (ms ! 1) = rot_id
        \<and> rotation (ms ! 3999) = rot_id
        \<and> atom_positions (assemble ms) ! 22 = (20, 50 / 3, 114 / 7))
   \<and> (\<exists>ms. main (\<lambda>seed n. 1 / real (n + 2)) (\<lambda>n. if even n then rot_id else rot_x90)
            ''disordered-rods'' = Inr (assemble ms)
        \<and> length (atom_positions (assemble ms)) = 80000
        \<and> rotation (ms ! 0) = rot_id \<and> rotation (ms ! 1) = rot_x90
        \<and> rotation (ms ! 3999) = rot_x90
        \<and> atom_positions (assemble ms) ! 22 = (20, 44 / 3, 100 / 7))"
proof -
  let ?py = "\<lambda>(seed::int) (n::nat). 1 / real (n + 2)"
  let ?np = "\<lambda>n::nat. if even n then rot_id else rot_x90"
  have k: "0 < NMOL" "1 < NMOL" "3999 < NMOL" "2 < NPOLY" "NMOL * NPOLY = 80000"
    "1 * NPOLY + 2 = 22"
    by (simp_all add: NMOL_def NPOLY_def)
  have chain: "fst (build_chain t ?np [0..<NPOLY] ((0, 0, 0), n)) ! 2 = (0, 0, 2)"
    if "slice_last 4 t = ''rods''" "slice_to 6 t \<noteq> ''random''" for t n
    using build_chain_rods [OF that, of ?np "[0..<NPOLY]" 0 0 0 n] k(4)
    by (simp add: LBOND_def)
  have tv: "(CELL ! 0 * ?py RANDOM_SEED (3 * 1), CELL ! 1 * ?py RANDOM_SEED (3 * 1 + 1),
             CELL ! 2 * ?py RANDOM_SEED (3 * 1 + 2)) = (20, 50 / 3, 100 / 7)"
    by (simp add: CELL_def)
  have "\<exists>ms. main ?py ?np t = Inr (assemble ms)
        \<and> length (atom_positions (assemble ms)) = 80000
        \<and> rotation (ms ! 0) = (if slice_to 10 t = ''disordered'' then ?np 0 else ?np 0)
        \<and> rotation (ms ! 1) = (if slice_to 10 t = ''disordered'' then ?np 1 else ?np 0)
        \<and> rotation (ms ! 3999) = (if slice_to 10 t = ''disordered'' then ?np 3999 else ?np 0)
        \<and> atom_positions (assemble ms) ! 22
            = vec_add (rotation_apply (if slice_to 10 t = ''disordered'' then ?np 1 else ?np 0)
                         (0, 0, 2)) (20, 50 / 3, 100 / 7)"
    if t: "slice_last 4 t = ''rods''" "slice_to 6 t \<noteq> ''random''" for t
  proof -
    from rotation_per_molecule [of ?py ?np t] obtain ms where
      m: "main ?py ?np t = Inr (assemble ms)"
      and l: "length (atom_positions (assemble ms)) = NMOL * NPOLY"
      and shared: "slice_to 10 t \<noteq> ''disordered'' \<longrightarrow> (\<forall>k<NMOL. rotation (ms ! k) = ?np 0)"
      and own: "slice_to 10 t = ''disordered'' \<longrightarrow> (\<forall>k<NMOL. rotation (ms ! k) = ?np k)"
      and every: "\<forall>k<NMOL.
           local_positions (ms ! k)
             = fst (build_chain t ?np [0..<NPOLY] ((0, 0, 0), chain_start t k))
         \<and> length (local_positions (ms ! k)) = NPOLY
         \<and> translation_vector (ms ! k)
             = (CELL ! 0 * ?py RANDOM_SEED (3 * k),
                CELL ! 1 * ?py RANDOM_SEED (3 * k + 1),
                CELL ! 2 * ?py RANDOM_SEED (3 * k + 2))
         \<and> (\<forall>i<NPOLY.
               atom_positions (assemble ms) ! (k * NPOLY + i)
                 = vec_add (rotation_apply (rotation (ms ! k)) (local_positions (ms ! k) ! i))
                     (translation_vector (ms ! k)))"
      by (elim exE conjE) (rule that, assumption+)
    have r: "rotation (ms ! k) = (if slice_to 10 t = ''disordered'' then ?np k else ?np 0)"
      if "k < NMOL" for k
      using shared own that by (cases "slice_to 10 t = ''disordered''") simp_all
    from every [rule_format, OF k(2)] have
      e: "local_positions (ms ! 1)
            = fst (build_chain t ?np [0..<NPOLY] ((0, 0, 0), chain_start t 1))"
         "translation_vector (ms ! 1)
            = (CELL ! 0 * ?py RANDOM_SEED (3 * 1), CELL ! 1 * ?py RANDOM_SEED (3 * 1 + 1),
               CELL ! 2 * ?py RANDOM_SEED (3 * 1 + 2))"
         "\<forall>i<NPOLY. atom_positions (assemble ms) ! (1 * NPOLY + i)
            = vec_add (rotation_apply (rotation (ms ! 1)) (local_positions (ms ! 1) ! i))
                (translation_vector (ms ! 1))"
      by blast+
    have "atom_positions (assemble ms) ! 22
        = vec_add (rotation_apply (rotation (ms ! 1)) (local_positions (ms ! 1) ! 2))
            (translation_vector (ms ! 1))"
      using e(3) [rule_format, OF k(4)] unfolding k(6) .
    also have "\<dots> = vec_add (rotation_apply
          (if slice_to 10 t = ''disordered'' then ?np 1 else ?np 0) (0, 0, 2))
          (20, 50 / 3, 100 / 7)"
      unfolding e(1) e(2) tv chain [OF t] r [OF k(2)] ..
    finally have a: "atom_positions (assemble ms) ! 22
        = vec_add (rotation_apply
            (if slice_to 10 t = ''disordered'' then ?np 1 else ?np 0) (0, 0, 2))
            (20, 50 / 3, 100 / 7)" .
    from l have l': "length (atom_positions (assemble ms)) = 80000" unfolding k(5) .
    show ?thesis
      by (rule exI [of _ ms]) (intro conjI m l' r [OF k(1)] r [OF k(2)] r [OF k(3)] a)
  qed
  note run = this
  have t1: "slice_last 4 ''rods'' = ''rods''" "slice_to 6 ''rods'' \<noteq> ''random''"
    "slice_to 10 ''rods'' \<noteq> ''disordered''"
    by (simp_all add: slice_last_def slice_to_def)
  have t2: "slice_last 4 ''disordered-rods'' = ''rods''"
    "slice_to 6 ''disordered-rods'' \<noteq> ''random''"
    "slice_to 10 ''disordered-rods'' = ''disordered''"
    by (simp_all add: slice_last_def slice_to_def)
  have v1: "vec_add (rotation_apply rot_id (0, 0, 2)) (20, 50 / 3, 100 / 7) = (20, 50 / 3, 114 / 7)"
    by (simp add: vec_add_def rotation_apply_def dot_def rot_id_def)
  have v2: "vec_add (rotation_apply rot_x90 (0, 0, 2)) (20, 50 / 3, 100 / 7) = (20, 44 / 3, 100 / 7)"
    by (simp add: vec_add_def rotation_apply_def dot_def rot_x90_def)
  from run [OF t1(1,2)] t1(3) v1 have "\<exists>ms. main ?py ?np ''rods'' = Inr (assemble ms)
        \<and> length (atom_positions (assemble ms)) = 80000
        \<and> rotation (ms ! 0) = rot_id \<and> rotation (ms ! 1) = rot_id
        \<and> rotation (ms ! 3999) = rot_id
        \<and> atom_positions (assemble ms) ! 22 = (20, 50 / 3, 114 / 7)"
    by simp
  moreover from run [OF t2(1,2)] t2(3) v2
  have "\<exists>ms. main ?py ?np ''disordered-rods'' = Inr (assemble ms)
        \<and> length (atom_positions (assemble ms)) = 80000
        \<and> rotation (ms ! 0) = rot_id \<and> rotation (ms ! 1) = rot_x90
        \<and> rotation (ms ! 3999) = rot_x90
        \<and> atom_positions (assemble ms) ! 22 = (20, 44 / 3, 100 / 7)"
    by simp
  ultimately show ?thesis by (rule conjI)
qed

lemma main_molecules_first:
  assumes "slice_to 10 t \<noteq> ''disordered''"
  shows "\<exists>m ms. main_molecules py_random np t = Inr (m # ms)
     \<and> positions m
         = map (\<lambda>p. vec_add (rotation_apply (np 0) p)
                  (CELL ! 0 * py_random RANDOM_SEED 0, CELL ! 1 * py_random RANDOM_SEED 1,
                   CELL ! 2 * py_random RANDOM_SEED 2))
             (fst (build_chain t np [0..<NPOLY] ((0, 0, 0), 1)))"
proof -
  let ?s = "\<lparr>ix = 0, np_n = 1, py_n = 0, molecule_rotation = Some (np 0)\<rparr>"
  let ?py = "py_random RANDOM_SEED"
  have "0 < NMOL" by (simp add: NMOL_def)
  then have u: "[0..<NMOL] = 0 # [Suc 0..<NMOL]" by (rule upt_conv_Cons)
  have r: "molecule_rotation ?s = Some (np 0)" by simp
  from make_molecule_shared [OF assms r, of ?py np 0] obtain m s' where
    m: "make_molecule t ?py np 0 ?s = Inr (m, s')" "molecule_rotation s' = Some (np 0)"
       "local_positions m = fst (build_chain t np [0..<NPOLY] ((0, 0, 0), np_n ?s))"
       "positions m = map (\<lambda>p. vec_add (rotation_apply (np 0) p) (translation_vector m))
                        (local_positions m)"
       "translation_vector m
          = (CELL ! 0 * ?py (py_n ?s), CELL ! 1 * ?py (py_n ?s + 1), CELL ! 2 * ?py (py_n ?s + 2))"
    by blast
  have tv: "translation_vector m = (CELL ! 0 * ?py 0, CELL ! 1 * ?py 1, CELL ! 2 * ?py 2)"
    using m(5) by (simp add: numeral_2_eq_2)
  have lp: "local_positions m = fst (build_chain t np [0..<NPOLY] ((0, 0, 0), 1))"
    using m(3) by simp
  from molecules_loop_shared [OF assms m(2), of ?py np "[Suc 0..<NMOL]"] obtain ms where
    "molecules_loop t ?py np [Suc 0..<NMOL] s' = Inr ms" by blast
  with m(1) assms have "main_molecules py_random np t = Inr (m # ms)"
    by (simp add: main_molecules_def u)
  moreover have "positions m
      = map (\<lambda>p. vec_add (rotation_apply (np 0) p)
               (CELL ! 0 * ?py 0, CELL ! 1 * ?py 1, CELL ! 2 * ?py 2))
          (fst (build_chain t np [0..<NPOLY] ((0, 0, 0), 1)))"
    unfolding m(4) tv lp ..
  ultimately show ?thesis by blast
qed

text \<open>
  Claim C3. The seed fixes the draws of Python's generator, which give the translations.
  The rotations come from the other generator, which the script does not seed. Two runs
  with the same seed and the token \<open>rods\<close>, one drawing the identity and one drawing the
  quarter turn about the x axis, write different positions: the second atom of the first
  molecule differs.
\<close>

theorem rotations_not_seeded:
  "main py_random (\<lambda>n. rot_id) ''rods'' \<noteq> main py_random (\<lambda>n. rot_x90) ''rods''"
proof
  assume eq: "main py_random (\<lambda>n. rot_id) ''rods'' = main py_random (\<lambda>n. rot_x90) ''rods''"
  let ?tv = "(CELL ! 0 * py_random RANDOM_SEED 0, CELL ! 1 * py_random RANDOM_SEED 1,
              CELL ! 2 * py_random RANDOM_SEED 2)"
  have t: "slice_to 10 ''rods'' \<noteq> ''disordered''" "slice_last 4 ''rods'' = ''rods''"
    "slice_to 6 ''rods'' \<noteq> ''random''"
    by (simp_all add: slice_to_def slice_last_def)
  have l: "1 < NPOLY" by (simp add: NPOLY_def)
  have c: "fst (build_chain ''rods'' np [0..<NPOLY] ((0, 0, 0), 1)) ! 1 = (0, 0, 1)" for np
    using build_chain_rods [OF t(2,3), of np "[0..<NPOLY]" 0 0 0 1] l
    by (simp add: LBOND_def)
  have n: "length (fst (build_chain ''rods'' np [0..<NPOLY] ((0, 0, 0), 1))) = NPOLY" for np
    by (simp add: build_chain_length)
  from main_molecules_first [OF t(1), of py_random "\<lambda>n. rot_id"] obtain m1 ms1 where
    m1: "main_molecules py_random (\<lambda>n. rot_id) ''rods'' = Inr (m1 # ms1)"
        "positions m1 = map (\<lambda>p. vec_add (rotation_apply rot_id p) ?tv)
           (fst (build_chain ''rods'' (\<lambda>n. rot_id) [0..<NPOLY] ((0, 0, 0), 1)))"
    by (elim exE conjE) (rule that)
  from main_molecules_first [OF t(1), of py_random "\<lambda>n. rot_x90"] obtain m2 ms2 where
    m2: "main_molecules py_random (\<lambda>n. rot_x90) ''rods'' = Inr (m2 # ms2)"
        "positions m2 = map (\<lambda>p. vec_add (rotation_apply rot_x90 p) ?tv)
           (fst (build_chain ''rods'' (\<lambda>n. rot_x90) [0..<NPOLY] ((0, 0, 0), 1)))"
    by (elim exE conjE) (rule that)
  have a: "atom_positions (assemble (m # ms)) ! 1 = positions m ! 1"
    if "length (positions m) = NPOLY" for m ms
    using that l by (simp add: assemble_def nth_append)
  have "positions m1 ! 1 = vec_add (rotation_apply rot_id (0, 0, 1)) ?tv"
    unfolding m1(2) using l n [of "\<lambda>n. rot_id"] c [of "\<lambda>n. rot_id"]
    by (simp only: nth_map)
  moreover have "length (positions m1) = NPOLY" unfolding m1(2) by (simp only: length_map n)
  ultimately
  have p1: "atom_positions (assemble (m1 # ms1)) ! 1 = vec_add (rotation_apply rot_id (0, 0, 1)) ?tv"
    using a by simp
  have "positions m2 ! 1 = vec_add (rotation_apply rot_x90 (0, 0, 1)) ?tv"
    unfolding m2(2) using l n [of "\<lambda>n. rot_x90"] c [of "\<lambda>n. rot_x90"]
    by (simp only: nth_map)
  moreover have "length (positions m2) = NPOLY" unfolding m2(2) by (simp only: length_map n)
  ultimately
  have p2: "atom_positions (assemble (m2 # ms2)) ! 1 = vec_add (rotation_apply rot_x90 (0, 0, 1)) ?tv"
    using a by simp
  from eq m1(1) m2(1) have "assemble (m1 # ms1) = assemble (m2 # ms2)"
    by (simp add: main_def)
  then have "atom_positions (assemble (m1 # ms1)) ! 1 = atom_positions (assemble (m2 # ms2)) ! 1"
    by (rule arg_cong)
  then have "vec_add (rotation_apply rot_id (0, 0, 1)) ?tv
      = vec_add (rotation_apply rot_x90 (0, 0, 1)) ?tv"
    unfolding p1 p2 .
  then show False
    by (simp add: vec_add_def rotation_apply_def dot_def rot_id_def rot_x90_def)
qed

end
